theory Spec2Isabelle
  imports Complex_Main "HOL-Library.Product_Lexorder" "HOL-Library.Multiset"
    "HOL-Library.Char_ord" "HOL-Library.List_Lexorder"
begin

section \<open>Assignment driver: capacity gap and worker-count selection\<close>

text \<open>
  Python exceptions that the modelled parts of \<^verbatim>\<open>Assignment.py\<close> can raise.
\<close>

datatype py_error = ZeroDivisionError | AssertionError | AttributeError

text \<open>
  Python's \<^verbatim>\<open>/\<close> on a float numerator. The floating-point result is idealised as a real
  number; a zero denominator raises.
\<close>

definition py_truediv :: "real \<Rightarrow> real \<Rightarrow> py_error + real" where
  "py_truediv a b = (if b = 0 then Inl ZeroDivisionError else Inr (a / b))"

text \<open>
  The four figures that \<^verbatim>\<open>assign_paths\<close> logs at the end of every outer iteration
  (\<^verbatim>\<open>TOTAL ASSIGNED PASSENGERS\<close>, \<^verbatim>\<open>ARRIVED PASSENGERS\<close>, \<^verbatim>\<open>MISSED PASSENGERS\<close>,
  \<^verbatim>\<open>CAPACITY GAP\<close>).
\<close>

record gap_report =
  total_assigned :: int
  arrived_passengers :: int
  missed_passengers :: int
  capacity_gap :: real

text \<open>
  \<^verbatim>\<open>assign_paths\<close>, lines 588-599:
  \<^verbatim>\<open>
  num_bumped_passengers = num_paths_found - num_passengers_arrived
  if num_paths_found > 0:
      capacity_gap = 100.0*num_bumped_passengers/num_paths_found
  else:
      capacity_gap = 100
  \<close>
\<close>

definition capacity_gap_stuff :: "int \<Rightarrow> int \<Rightarrow> py_error + gap_report" where
  "capacity_gap_stuff num_paths_found num_passengers_arrived =
     (let num_bumped_passengers = num_paths_found - num_passengers_arrived in
      if num_paths_found > 0 then
        (case py_truediv (100 * real_of_int num_bumped_passengers) (real_of_int num_paths_found) of
           Inl e \<Rightarrow> Inl e
         | Inr g \<Rightarrow> Inr \<lparr>total_assigned = num_paths_found,
                       arrived_passengers = num_passengers_arrived,
                       missed_passengers = num_bumped_passengers,
                       capacity_gap = g\<rparr>)
      else Inr \<lparr>total_assigned = num_paths_found,
                arrived_passengers = num_passengers_arrived,
                missed_passengers = num_bumped_passengers,
                capacity_gap = 100\<rparr>)"

text \<open>
  \<^verbatim>\<open>generate_pathsets\<close>, lines 680-685: the number of worker processes. The result of
  \<^verbatim>\<open>multiprocessing.cpu_count()\<close> is a parameter. \<^verbatim>\<open>est_paths_to_find\<close> is a Python 2
  \<^verbatim>\<open>int\<close>, so \<^verbatim>\<open>int(est_paths_to_find/3)\<close> is floor division.
\<close>

definition num_processes_for :: "int \<Rightarrow> int \<Rightarrow> int \<Rightarrow> int" where
  "num_processes_for NUMBER_OF_PROCESSES cpu_count est_paths_to_find =
     (let num_processes = (if NUMBER_OF_PROCESSES < 1 then cpu_count else NUMBER_OF_PROCESSES) in
      if num_processes > est_paths_to_find * 3 then est_paths_to_find div 3 else num_processes)"

text \<open>
  Lines 690-706: the queues and worker processes are set up exactly when
  \<^verbatim>\<open>num_processes > 1\<close>; otherwise the extension is initialised in this process.
\<close>

definition uses_pool :: "int \<Rightarrow> int \<Rightarrow> int \<Rightarrow> bool" where
  "uses_pool NUMBER_OF_PROCESSES cpu_count est_paths_to_find \<longleftrightarrow>
     num_processes_for NUMBER_OF_PROCESSES cpu_count est_paths_to_find > 1"

section \<open>Pathset generation: cancellation\<close>

text \<open>
  \<^verbatim>\<open>process_dict\<close> of \<^verbatim>\<open>generate_pathsets\<close> maps a worker number to a dictionary with
  the entries \<^verbatim>\<open>"process"\<close>, \<^verbatim>\<open>"alive"\<close>, \<^verbatim>\<open>"done"\<close> (here \<open>is_done\<close>) and, while a request is in flight,
  \<^verbatim>\<open>"working_on"\<close>. The operating-system process behind \<^verbatim>\<open>"process"\<close> is represented by
  whether it is still running.
\<close>

record worker_entry =
  process_running :: bool
  alive :: bool
  is_done :: bool
  working_on :: "(string \<times> int) option"

text \<open>
  The objects the loop variable \<^verbatim>\<open>proc\<close> of the handler can be bound to: a Python \<^verbatim>\<open>int\<close>
  or a \<^verbatim>\<open>multiprocessing.Process\<close>. Only the latter has a method \<^verbatim>\<open>terminate\<close>;
  attribute lookup on an \<^verbatim>\<open>int\<close> raises \<^verbatim>\<open>AttributeError\<close>.
\<close>

datatype py_object = Int_object int | Process_object bool

definition terminate :: "py_object \<Rightarrow> py_error + py_object" where
  "terminate obj =
     (case obj of
        Int_object _ \<Rightarrow> Inl AttributeError
      | Process_object _ \<Rightarrow> Inr (Process_object False))"

text \<open>How control leaves the handler: \<^verbatim>\<open>sys.exit(code)\<close>, or an exception that propagates.\<close>

datatype handler_outcome = SysExit int | Propagates py_error

text \<open>
  Lines 836-838, \<^verbatim>\<open>for proc in process_dict: proc.terminate()\<close>. Iterating a dictionary
  yields its keys, so the objects visited are the worker numbers. The loop stops at the
  first exception; the returned list holds the objects on which \<^verbatim>\<open>terminate\<close> succeeded.
\<close>

fun terminate_all :: "py_object list \<Rightarrow> py_error + py_object list" where
  "terminate_all [] = Inr []"
| "terminate_all (proc # procs) =
     (case terminate proc of
        Inl e \<Rightarrow> Inl e
      | Inr proc' \<Rightarrow> (case terminate_all procs of Inl e \<Rightarrow> Inl e | Inr procs' \<Rightarrow> Inr (proc' # procs')))"

text \<open>
  The handler \<^verbatim>\<open>except (KeyboardInterrupt, SystemExit)\<close>, lines 830-839. No entry of
  \<^verbatim>\<open>process_dict\<close> is written by it, so the dictionary is returned as it was. An exception
  raised inside the handler is not caught by the sibling \<^verbatim>\<open>except:\<close> clause of the same
  \<^verbatim>\<open>try\<close>, so it propagates out of \<^verbatim>\<open>generate_pathsets\<close>.
\<close>

definition keyboard_interrupt_handler ::
  "(int \<times> worker_entry) list \<Rightarrow> (int \<times> worker_entry) list \<times> handler_outcome" where
  "keyboard_interrupt_handler process_dict =
     (case terminate_all (map (\<lambda>(worker_num, entry). Int_object worker_num) process_dict) of
        Inl e \<Rightarrow> (process_dict, Propagates e)
      | Inr _ \<Rightarrow> (process_dict, SysExit 2))"

section \<open>Tables\<close>

text \<open>
  The data frames of the source are lists of rows, in row order. A record holds the columns
  that the modelled functions read or write; every other column is carried along unchanged
  by the source and is left out. A cell that can be null (\<^verbatim>\<open>NaN\<close>, \<^verbatim>\<open>NaT\<close>) is an
  \<open>option\<close>. Times are \<^verbatim>\<open>datetime64\<close> values and durations \<^verbatim>\<open>timedelta64\<close> values, both
  counted in whole seconds. The column \<^verbatim>\<open>chosen\<close> is a float
  (\<^verbatim>\<open>iteration + simulation_iteration/100\<close>, \<open>-1\<close>, \<open>-2\<close>), idealised as a real.
\<close>

type_synonym time = int

record trip_list_entry =
  t_person_id :: string
  t_trip_list_id_num :: int

record pathset_path =
  p_person_id :: string
  p_trip_list_id_num :: int
  p_pathnum :: int
  p_chosen :: real
  p_missed_xfer :: "int option"

text \<open>
  \<^verbatim>\<open>pandas.merge(left, right, how="left")\<close>: every left row, in order, paired with each
  right row that agrees with it on the join columns, in the order of the right table, or
  with a null row when there is none.
\<close>

definition left_merge :: "('a \<Rightarrow> 'b \<Rightarrow> bool) \<Rightarrow> 'a list \<Rightarrow> 'b list \<Rightarrow> ('a \<times> 'b option) list" where
  "left_merge on left right =
     concat (map (\<lambda>l. case filter (on l) right of
                          [] \<Rightarrow> [(l, None)]
                        | ms \<Rightarrow> map (\<lambda>r. (l, Some r)) ms) left)"

section \<open>Which requests are pathfound, and how pathsets are merged\<close>

text \<open>Class constants \<^verbatim>\<open>CHOSEN_NOT_CHOSEN_YET = -1\<close> and \<^verbatim>\<open>CHOSEN_REJECTED = -2\<close>.\<close>

definition CHOSEN_NOT_CHOSEN_YET :: real where
  "CHOSEN_NOT_CHOSEN_YET = - 1"

definition CHOSEN_REJECTED :: real where
  "CHOSEN_REJECTED = - 2"

text \<open>
  \<^verbatim>\<open>filter_trip_list_to_not_arrived\<close>, lines 606-627: the paths with \<^verbatim>\<open>chosen >= 0\<close> are
  left-merged onto the trip list by \<^verbatim>\<open>trip_list_id_num\<close> (the only shared column) and the
  rows whose \<^verbatim>\<open>chosen\<close> stayed null are kept.
\<close>

definition filter_trip_list_to_not_arrived ::
  "trip_list_entry list \<Rightarrow> pathset_path list \<Rightarrow> trip_list_entry list" where
  "filter_trip_list_to_not_arrived trip_list_df pathset_paths_df =
     (let chosen_paths_df = filter (\<lambda>p. p_chosen p \<ge> 0) pathset_paths_df;
          trip_list_df_to_return =
            left_merge (\<lambda>t p. t_trip_list_id_num t = p_trip_list_id_num p) trip_list_df chosen_paths_df
      in map fst (filter (\<lambda>(t, c). c = None) trip_list_df_to_return))"

text \<open>
  \<^verbatim>\<open>generate_pathsets\<close>, lines 658-669: the requests to pathfind and the class attribute
  \<^verbatim>\<open>Assignment.PATHFINDING_EVERYONE\<close> afterwards. On an odd iteration the source assigns
  a local variable \<^verbatim>\<open>PATHFINDING_EVERYONE = True\<close>, which leaves the class attribute as it
  was.
\<close>

definition pathfind_trip_list ::
  "bool \<Rightarrow> int \<Rightarrow> trip_list_entry list \<Rightarrow> pathset_path list \<Rightarrow> bool \<times> trip_list_entry list" where
  "pathfind_trip_list PATHFINDING_EVERYONE iteration trip_list_df pathset_paths_df =
     (if iteration mod 2 = 0
      then (False, filter_trip_list_to_not_arrived trip_list_df pathset_paths_df)
      else (PATHFINDING_EVERYONE, trip_list_df))"

text \<open>
  The loop of \<^verbatim>\<open>generate_pathsets\<close>, lines 712-746: the requests for which a path search
  is run (in this process or by a worker). \<^verbatim>\<open>PathSet.goes_somewhere\<close> is defined outside
  this file and is a parameter.
\<close>

definition requests_searched ::
  "bool \<Rightarrow> string list \<Rightarrow> (trip_list_entry \<Rightarrow> bool) \<Rightarrow> trip_list_entry list \<Rightarrow> trip_list_entry list" where
  "requests_searched DEBUG_TRACE_ONLY TRACE_PERSON_IDS goes_somewhere pathfind_trip_list_df =
     filter (\<lambda>t. \<not> (DEBUG_TRACE_ONLY \<and> t_person_id t \<notin> set TRACE_PERSON_IDS) \<and> goes_somewhere t)
       pathfind_trip_list_df"

text \<open>
  \<^verbatim>\<open>merge_pathsets\<close>, lines 474-518, for one of the two tables: \<open>ident\<close> reads the column
  \<^verbatim>\<open>trip_list_id_num\<close> of a row. The old rows are left-merged with the pathfound requests,
  those that found no partner are kept, and the new rows are appended.
\<close>

definition drop_pathfound :: "('r \<Rightarrow> int) \<Rightarrow> trip_list_entry list \<Rightarrow> 'r list \<Rightarrow> 'r list" where
  "drop_pathfound ident pathfind_trip_list_df rows =
     map fst (filter (\<lambda>(r, new). new = None)
       (left_merge (\<lambda>r t. ident r = t_trip_list_id_num t) rows pathfind_trip_list_df))"

definition merge_pathsets_paths ::
  "trip_list_entry list \<Rightarrow> pathset_path list \<Rightarrow> pathset_path list \<Rightarrow> pathset_path list" where
  "merge_pathsets_paths pathfind_trip_list_df pathset_paths_df new_pathset_paths_df =
     drop_pathfound p_trip_list_id_num pathfind_trip_list_df pathset_paths_df @
     map (\<lambda>p. p\<lparr>p_chosen := CHOSEN_NOT_CHOSEN_YET, p_missed_xfer := Some 0\<rparr>) new_pathset_paths_df"

text \<open>
  \<^verbatim>\<open>Assignment.number_of_pathsets\<close>: the number of distinct \<^verbatim>\<open>trip_list_id_num\<close>.
\<close>

definition number_of_pathsets :: "pathset_path list \<Rightarrow> int" where
  "number_of_pathsets pathset_paths_df = int (length (remdups (map p_trip_list_id_num pathset_paths_df)))"

text \<open>
  \<^verbatim>\<open>assign_paths\<close>, lines 562-567, for the paths table: the table handed to the simulation
  and the number of pathsets found. The arguments \<open>num_paths_found\<close> and
  \<open>new_pathset_paths_df\<close> are the results of \<^verbatim>\<open>generate_pathsets\<close> and of
  \<^verbatim>\<open>Passenger.setup_passenger_pathsets\<close>.
\<close>

definition assign_paths_pathsets ::
  "bool \<Rightarrow> trip_list_entry list \<Rightarrow> int \<Rightarrow> pathset_path list \<Rightarrow> pathset_path list \<Rightarrow> int \<times> pathset_path list" where
  "assign_paths_pathsets PATHFINDING_EVERYONE pathfind_trip_list_df num_paths_found
       pathset_paths_df new_pathset_paths_df =
     (if PATHFINDING_EVERYONE then (num_paths_found, new_pathset_paths_df)
      else (let merged = merge_pathsets_paths pathfind_trip_list_df pathset_paths_df new_pathset_paths_df
            in (number_of_pathsets merged, merged)))"

text \<open>
  Link modes \<^verbatim>\<open>PathSet.STATE_MODE_ACCESS\<close>, \<^verbatim>\<open>STATE_MODE_EGRESS\<close>,
  \<^verbatim>\<open>STATE_MODE_TRANSFER\<close> and \<^verbatim>\<open>STATE_MODE_TRIP\<close> (the column \<^verbatim>\<open>linkmode\<close>).
\<close>

datatype link_mode = STATE_MODE_ACCESS | STATE_MODE_EGRESS | STATE_MODE_TRANSFER | STATE_MODE_TRIP

text \<open>
  A row of \<^verbatim>\<open>pathset_links_df\<close>. The columns \<^verbatim>\<open>trip_id_num\<close>, \<^verbatim>\<open>A_seq\<close> and \<^verbatim>\<open>B_seq\<close> are
  null on access, egress and transfer links. The columns from \<open>l_board_time\<close> on are
  written by the simulation.
\<close>

record pathset_link =
  l_person_id :: string
  l_trip_list_id_num :: int
  l_pathnum :: int
  l_linknum :: int
  l_linkmode :: link_mode
  l_trip_id_num :: "int option"
  l_A_id_num :: int
  l_B_id_num :: int
  l_A_seq :: "int option"
  l_B_seq :: "int option"
  l_pf_A_time :: time
  l_pf_B_time :: time
  l_pf_linktime :: int
  l_chosen :: real
  l_bump_iter :: int
  l_bumpstop_boarded :: "int option"
  l_board_time :: "time option"
  l_alight_time :: "time option"
  l_overcap :: "int option"
  l_alight_delay_min :: "real option"
  l_new_A_time :: "time option"
  l_new_B_time :: "time option"
  l_new_linktime :: "int option"
  l_new_waittime :: "int option"
  l_missed_xfer :: int

text \<open>
  A row of \<^verbatim>\<open>veh_trips_df\<close> (one stop of one vehicle trip). The column \<^verbatim>\<open>trip_id\<close> is the
  trip's identifier as a Python 2 string, compared byte by byte, and \<^verbatim>\<open>trip_id_num\<close> its
  number. The capacity is null when the vehicle has none configured.
\<close>

record veh_trip =
  v_trip_id :: string
  v_trip_id_num :: int
  v_stop_sequence :: int
  v_stop_id_num :: int
  v_arrival_time :: time
  v_departure_time :: time
  v_capacity :: "int option"
  v_boards :: int
  v_alights :: int
  v_onboard :: int
  v_overcap :: "int option"
  v_msa_boards :: real
  v_msa_alights :: real
  v_msa_onboard :: real
  v_msa_overcap :: real

definition merge_pathsets_links ::
  "trip_list_entry list \<Rightarrow> pathset_link list \<Rightarrow> pathset_link list \<Rightarrow> pathset_link list" where
  "merge_pathsets_links pathfind_trip_list_df pathset_links_df new_pathset_links_df =
     drop_pathfound l_trip_list_id_num pathfind_trip_list_df pathset_links_df @ new_pathset_links_df"

section \<open>Vehicle loader\<close>

text \<open>
  \<^verbatim>\<open>put_passengers_on_vehicles\<close>, lines 1066-1080: the unbumped chosen links are grouped by
  \<^verbatim>\<open>(trip_id_num, A_id_num, A_seq)\<close> and counted; a group key with a null component forms
  no group. The left merge onto the vehicle rows followed by \<^verbatim>\<open>fillna(0)\<close> gives each
  vehicle row the size of its group, or 0.
\<close>

definition passenger_trips_boards :: "pathset_link list \<Rightarrow> veh_trip \<Rightarrow> int" where
  "passenger_trips_boards passengers_df v =
     int (length (filter (\<lambda>l. l_bump_iter l = - 1 \<and>
                             l_trip_id_num l = Some (v_trip_id_num v) \<and>
                             l_A_id_num l = v_stop_id_num v \<and>
                             l_A_seq l = Some (v_stop_sequence v)) passengers_df))"

definition passenger_trips_alights :: "pathset_link list \<Rightarrow> veh_trip \<Rightarrow> int" where
  "passenger_trips_alights passengers_df v =
     int (length (filter (\<lambda>l. l_bump_iter l = - 1 \<and>
                             l_trip_id_num l = Some (v_trip_id_num v) \<and>
                             l_B_id_num l = v_stop_id_num v \<and>
                             l_B_seq l = Some (v_stop_sequence v)) passengers_df))"

text \<open>\<^verbatim>\<open>fillna(value=0)\<close> on a cell.\<close>

definition fillna0 :: "int option \<Rightarrow> int option" where
  "fillna0 c = Some (case c of None \<Rightarrow> 0 | Some x \<Rightarrow> x)"

text \<open>
  Lines 1109-1114: the boards and alights are averaged when \<^verbatim>\<open>bump_iter == 0\<close>, with
  \<^verbatim>\<open>msa_lambda = 1.0/iteration\<close>. Float arithmetic is idealised as real arithmetic.
\<close>

definition msa_row :: "real \<Rightarrow> veh_trip \<Rightarrow> veh_trip" where
  "msa_row msa_lambda v =
     v\<lparr>v_msa_boards := msa_lambda * real_of_int (v_boards v) + (1 - msa_lambda) * v_msa_boards v,
       v_msa_alights := msa_lambda * real_of_int (v_alights v) + (1 - msa_lambda) * v_msa_alights v\<rparr>"

definition msa_boards_alights :: "int \<Rightarrow> int \<Rightarrow> veh_trip list \<Rightarrow> py_error + veh_trip list" where
  "msa_boards_alights iteration bump_iter veh_loaded_df =
     (if bump_iter = 0 then
        (case py_truediv 1 (real_of_int iteration) of
           Inl e \<Rightarrow> Inl e
         | Inr msa_lambda \<Rightarrow> Inr (map (msa_row msa_lambda) veh_loaded_df))
      else Inr veh_loaded_df)"

text \<open>
  \<^verbatim>\<open>groupby(level=[0]).cumsum()\<close>: the running sum of a column within each group, in row
  order. The accumulator holds the sum so far of every group.
\<close>

fun group_cumsum :: "('k \<Rightarrow> 'v::monoid_add) \<Rightarrow> ('k \<times> 'v) list \<Rightarrow> 'v list" where
  "group_cumsum acc [] = []"
| "group_cumsum acc ((k, x) # rest) = (acc k + x) # group_cumsum (acc(k := acc k + x)) rest"

text \<open>
  Lines 1116-1121: the table \<^verbatim>\<open>trips_cumsum\<close>, indexed by \<^verbatim>\<open>(trip_id_num, stop_sequence)\<close>,
  with the cumulative sums per trip of \<^verbatim>\<open>boards - alights\<close> and of
  \<^verbatim>\<open>msa_boards - msa_alights\<close>.
\<close>

definition trips_cumsum :: "veh_trip list \<Rightarrow> ((int \<times> int) \<times> (int \<times> real)) list" where
  "trips_cumsum veh_loaded_df =
     zip (map (\<lambda>v. (v_trip_id_num v, v_stop_sequence v)) veh_loaded_df)
       (zip (group_cumsum (\<lambda>_. 0) (map (\<lambda>v. (v_trip_id_num v, v_boards v - v_alights v)) veh_loaded_df))
            (group_cumsum (\<lambda>_. 0) (map (\<lambda>v. (v_trip_id_num v, v_msa_boards v - v_msa_alights v)) veh_loaded_df)))"

text \<open>
  \<^verbatim>\<open>put_passengers_on_vehicles\<close>, lines 1047-1138. \<^verbatim>\<open>Passenger.get_chosen_links\<close> is defined
  outside this file and is a parameter. \<^verbatim>\<open>fillna(value=0)\<close> acts on every column of the
  table, so it also fills a null capacity or overcap. The cumulative sums are merged back
  on the index \<^verbatim>\<open>(trip_id_num, stop_sequence)\<close>, and the source asserts that this keeps
  the number of rows. Every row finds at least its own cumulative sum, so the null case of
  that merge does not arise; the model leaves such a row as it is.
\<close>

definition load_row :: "pathset_link list \<Rightarrow> veh_trip \<Rightarrow> veh_trip" where
  "load_row passengers_df v =
     v\<lparr>v_capacity := fillna0 (v_capacity v),
       v_overcap := fillna0 (v_overcap v),
       v_boards := passenger_trips_boards passengers_df v,
       v_alights := passenger_trips_alights passengers_df v\<rparr>"

definition set_onboard :: "veh_trip \<times> ((int \<times> int) \<times> (int \<times> real)) option \<Rightarrow> veh_trip" where
  "set_onboard row =
     (case row of
        (v, None) \<Rightarrow> v
      | (v, Some (idx, onboard, msa_onboard)) \<Rightarrow> v\<lparr>v_onboard := onboard, v_msa_onboard := msa_onboard\<rparr>)"

definition put_passengers_on_vehicles ::
  "(pathset_link list \<Rightarrow> pathset_link list) \<Rightarrow> int \<Rightarrow> int \<Rightarrow> pathset_link list \<Rightarrow> veh_trip list
     \<Rightarrow> py_error + veh_trip list" where
  "put_passengers_on_vehicles get_chosen_links iteration bump_iter pathset_links_df veh_trips_df =
     (let passengers_df = get_chosen_links pathset_links_df;
          veh_loaded_df = map (load_row passengers_df) veh_trips_df
      in case msa_boards_alights iteration bump_iter veh_loaded_df of
           Inl e \<Rightarrow> Inl e
         | Inr veh_loaded_df \<Rightarrow>
             (let merged = left_merge (\<lambda>v (idx, c). idx = (v_trip_id_num v, v_stop_sequence v))
                             veh_loaded_df (trips_cumsum veh_loaded_df)
              in if length merged = length veh_trips_df
                 then Inr (map set_onboard merged)
                 else Inl AssertionError))"

text \<open>
  Within each trip the rows of a vehicle table are in the order of strictly increasing stop
  sequence (the stop times of a trip are sorted by sequence).
\<close>

definition trips_in_sequence :: "veh_trip list \<Rightarrow> bool" where
  "trips_in_sequence veh_trips_df \<longleftrightarrow>
     sorted_wrt (\<lambda>a b. v_trip_id_num a = v_trip_id_num b \<longrightarrow> v_stop_sequence a < v_stop_sequence b)
       veh_trips_df"

section \<open>A two-stop trip with two passengers\<close>

text \<open>
  The concrete tables used to evaluate the functions: one vehicle trip (number 1) calling
  at stop 10 (sequence 1, 08:00) and stop 20 (sequence 2, 08:10) with capacity 1, and the
  trip links of two passengers who both ride it from stop 10 to stop 20. Passenger \<open>a\<close>
  reaches stop 10 at 07:55, passenger \<open>b\<close> at 07:58.
\<close>

definition example_veh_trips :: "veh_trip list" where
  "example_veh_trips =
     [\<lparr>v_trip_id = ''t1'', v_trip_id_num = 1, v_stop_sequence = 1, v_stop_id_num = 10,
       v_arrival_time = 28800, v_departure_time = 28800, v_capacity = Some 1,
       v_boards = 0, v_alights = 0, v_onboard = 0, v_overcap = None,
       v_msa_boards = 0, v_msa_alights = 0, v_msa_onboard = 0, v_msa_overcap = 0\<rparr>,
      \<lparr>v_trip_id = ''t1'', v_trip_id_num = 1, v_stop_sequence = 2, v_stop_id_num = 20,
       v_arrival_time = 29400, v_departure_time = 29400, v_capacity = Some 1,
       v_boards = 0, v_alights = 0, v_onboard = 0, v_overcap = None,
       v_msa_boards = 0, v_msa_alights = 0, v_msa_onboard = 0, v_msa_overcap = 0\<rparr>]"

definition example_link_a :: pathset_link where
  "example_link_a =
     \<lparr>l_person_id = ''a'', l_trip_list_id_num = 1, l_pathnum = 0, l_linknum = 1,
      l_linkmode = STATE_MODE_TRIP, l_trip_id_num = Some 1, l_A_id_num = 10, l_B_id_num = 20,
      l_A_seq = Some 1, l_B_seq = Some 2, l_pf_A_time = 28500, l_pf_B_time = 29400,
      l_pf_linktime = 900, l_chosen = 1, l_bump_iter = - 1, l_bumpstop_boarded = None,
      l_board_time = None, l_alight_time = None, l_overcap = None, l_alight_delay_min = None,
      l_new_A_time = Some 28500, l_new_B_time = None, l_new_linktime = None,
      l_new_waittime = None, l_missed_xfer = 0\<rparr>"

definition example_link_b :: pathset_link where
  "example_link_b =
     example_link_a\<lparr>l_person_id := ''b'', l_trip_list_id_num := 2,
       l_pf_A_time := 28680, l_pf_linktime := 720, l_new_A_time := Some 28680\<rparr>"

text \<open>
  An instance of \<^verbatim>\<open>Passenger.get_chosen_links\<close> for the evaluations: the links of chosen
  paths.
\<close>

definition example_get_chosen_links :: "pathset_link list \<Rightarrow> pathset_link list" where
  "example_get_chosen_links pathset_links_df = filter (\<lambda>l. l_chosen l \<ge> 0) pathset_links_df"

section \<open>Board and alight times of passenger links\<close>

text \<open>
  \<^verbatim>\<open>find_passenger_vehicle_times\<close>, lines 969-1044. The columns \<^verbatim>\<open>board_time\<close>,
  \<^verbatim>\<open>alight_time\<close> and \<^verbatim>\<open>overcap\<close> are dropped and set again by two left merges with the
  vehicle table: on \<^verbatim>\<open>(trip_id_num, A_id_num, A_seq)\<close> for the departure time (the board
  time) and the overcap, and on \<^verbatim>\<open>(trip_id_num, B_id_num, B_seq)\<close> for the arrival time
  (the alight time). The float column \<^verbatim>\<open>overcap_frac\<close>, which no modelled function reads,
  is left out here and below.
\<close>

definition find_passenger_vehicle_times :: "pathset_link list \<Rightarrow> veh_trip list \<Rightarrow> pathset_link list" where
  "find_passenger_vehicle_times pathset_links_df veh_trips_df =
     (let boarded =
            map (\<lambda>(l, v). l\<lparr>l_board_time := map_option v_departure_time v,
                             l_overcap := Option.bind v v_overcap\<rparr>)
              (left_merge (\<lambda>l v. l_trip_id_num l = Some (v_trip_id_num v) \<and>
                                   l_A_id_num l = v_stop_id_num v \<and>
                                   l_A_seq l = Some (v_stop_sequence v)) pathset_links_df veh_trips_df)
      in map (\<lambda>(l, v). l\<lparr>l_alight_time := map_option v_arrival_time v\<rparr>)
           (left_merge (\<lambda>l v. l_trip_id_num l = Some (v_trip_id_num v) \<and>
                                l_B_id_num l = v_stop_id_num v \<and>
                                l_B_seq l = Some (v_stop_sequence v)) boarded veh_trips_df))"

section \<open>Capacity enforcer\<close>

text \<open>
  \<^verbatim>\<open>flag_bump_overcap_passengers\<close>, lines 1295-1309, on one vehicle row:
  \<^verbatim>\<open>overcap = onboard - capacity\<close>, and in the very first pass
  (\<^verbatim>\<open>iteration==1 and simulation_iteration==0 and bump_iter==0\<close>) also
  \<^verbatim>\<open>msa_overcap = msa_onboard - capacity\<close> with negative values set to 0. A null capacity
  does not reach this function in the simulation (\<^verbatim>\<open>put_passengers_on_vehicles\<close> has
  filled it); for such a row the model leaves \<open>v_msa_overcap\<close> as it is.
\<close>

definition set_overcap :: "int \<Rightarrow> int \<Rightarrow> int \<Rightarrow> veh_trip \<Rightarrow> veh_trip" where
  "set_overcap iteration simulation_iteration bump_iter v =
     (let v' = v\<lparr>v_overcap := map_option (\<lambda>capacity. v_onboard v - capacity) (v_capacity v)\<rparr>
      in if iteration = 1 \<and> simulation_iteration = 0 \<and> bump_iter = 0
         then (case v_capacity v of
                 None \<Rightarrow> v'
               | Some capacity \<Rightarrow>
                   v'\<lparr>v_msa_overcap :=
                        (if v_msa_onboard v - real_of_int capacity < 0 then 0
                         else v_msa_onboard v - real_of_int capacity)\<rparr>)
         else v')"

text \<open>The join condition of a link with a vehicle row on \<^verbatim>\<open>(trip_id_num, A_seq)\<close>.\<close>

definition boards_at :: "pathset_link \<Rightarrow> veh_trip \<Rightarrow> bool" where
  "boards_at l v \<longleftrightarrow> l_trip_id_num l = Some (v_trip_id_num v) \<and> l_A_seq l = Some (v_stop_sequence v)"

text \<open>
  Lines 1311-1330: links of chosen paths that board at a stop where the vehicle is exactly
  at capacity are recorded as boarded.
\<close>

definition mark_atcap :: "veh_trip list \<Rightarrow> pathset_link list \<Rightarrow> pathset_link list" where
  "mark_atcap veh_loaded_df pathset_links_df =
     (let atcap_df = filter (\<lambda>v. v_overcap v = Some 0) veh_loaded_df
      in map (\<lambda>(l, stop). if stop \<noteq> None \<and> l_chosen l \<ge> 0
                            then l\<lparr>l_bumpstop_boarded := Some 1\<rparr> else l)
           (left_merge boards_at pathset_links_df atcap_df))"

text \<open>
  Lines 1342-1354: \<^verbatim>\<open>groupby([trip_id]).aggregate('first').reset_index()\<close> takes, for
  every \<^verbatim>\<open>trip_id\<close> among the over-capacity rows, the first row of that trip (no modelled
  column of an over-capacity row is null, so the first value of every column comes from
  that row), and orders the result by \<^verbatim>\<open>trip_id\<close>. With \<^verbatim>\<open>BUMP_ONE_AT_A_TIME\<close> the table
  is sorted by arrival time and its first row kept; among rows with equal arrival times
  the model keeps the \<^verbatim>\<open>trip_id\<close> order.
\<close>

fun first_per_trip :: "string list \<Rightarrow> veh_trip list \<Rightarrow> veh_trip list" where
  "first_per_trip seen [] = []"
| "first_per_trip seen (v # vs) =
     (if v_trip_id v \<in> set seen then first_per_trip seen vs
      else v # first_per_trip (v_trip_id v # seen) vs)"

definition bump_stops :: "bool \<Rightarrow> bool \<Rightarrow> veh_trip list \<Rightarrow> veh_trip list" where
  "bump_stops CAPACITY_CONSTRAINT BUMP_ONE_AT_A_TIME overcap_df =
     (let bump_stops_df = sort_key v_trip_id (first_per_trip [] overcap_df)
      in if CAPACITY_CONSTRAINT \<and> BUMP_ONE_AT_A_TIME
         then take 1 (sort_key v_arrival_time bump_stops_df)
         else bump_stops_df)"

text \<open>The rows of a left merge that found a partner.\<close>

definition matched :: "('a \<times> 'b option) list \<Rightarrow> ('a \<times> 'b) list" where
  "matched rows = concat (map (\<lambda>(l, r). case r of None \<Rightarrow> [] | Some v \<Rightarrow> [(l, v)]) rows)"

text \<open>
  A bump candidate is a link together with the bump stop it was joined to; the trip and the
  stop sequence of the two agree. Lines 1403-1410 sort the candidates by \<^verbatim>\<open>new_A_time\<close>,
  \<^verbatim>\<open>trip_id_num\<close> and \<^verbatim>\<open>A_seq\<close> ascending and by \<^verbatim>\<open>pf_A_time\<close> and \<^verbatim>\<open>trip_list_id_num\<close>
  descending; a null time sorts last. The sort key below is compared lexicographically.
\<close>

definition nulls_last :: "int option \<Rightarrow> int \<times> int" where
  "nulls_last x = (case x of Some t \<Rightarrow> (0, t) | None \<Rightarrow> (1, 0))"

definition bump_order :: "pathset_link \<times> veh_trip \<Rightarrow> (int \<times> int) \<times> int \<times> int \<times> int \<times> int" where
  "bump_order c =
     (case c of (l, v) \<Rightarrow>
        (nulls_last (l_new_A_time l), v_trip_id_num v, v_stop_sequence v,
         - l_pf_A_time l, - l_trip_list_id_num l))"

text \<open>The group of a candidate: \<^verbatim>\<open>(trip_id_num, A_seq, A_id_num)\<close>.\<close>

definition bump_group :: "pathset_link \<times> veh_trip \<Rightarrow> int \<times> int \<times> int" where
  "bump_group c = (case c of (l, v) \<Rightarrow> (v_trip_id_num v, v_stop_sequence v, l_A_id_num l))"

text \<open>
  \<^verbatim>\<open>groupby(...).cumcount()\<close>: the number of earlier rows of the same group. The first
  argument lists the keys of the rows already passed.
\<close>

fun cumcount :: "'k list \<Rightarrow> 'k list \<Rightarrow> nat list" where
  "cumcount seen [] = []"
| "cumcount seen (k # ks) = count_list seen k # cumcount (k # seen) ks"

text \<open>
  A row of \<^verbatim>\<open>bumpstop_boards\<close> after lines 1413-1425. \<^verbatim>\<open>new_bumpstop_boarded\<close> is 1 for
  a candidate that boards and 0 for one that is bumped: it is set to 0 where
  \<^verbatim>\<open>bump_index < overcap\<close>, a comparison that is false when the overcap is null.
\<close>

record bumpstop_board =
  bb_link :: pathset_link
  bb_stop :: veh_trip
  bump_index :: nat
  new_bumpstop_boarded :: int

definition bumpstop_board_row :: "(pathset_link \<times> veh_trip) \<times> nat \<Rightarrow> bumpstop_board" where
  "bumpstop_board_row row =
     (case row of ((l, v), i) \<Rightarrow>
        \<lparr>bb_link = l, bb_stop = v, bump_index = i,
         new_bumpstop_boarded =
           (case l_overcap l of None \<Rightarrow> 1 | Some overcap \<Rightarrow> if int i < overcap then 0 else 1)\<rparr>)"

definition bumpstop_boards :: "(pathset_link \<times> veh_trip) list \<Rightarrow> bumpstop_board list" where
  "bumpstop_boards candidates =
     (let sorted_candidates = sort_key bump_order candidates;
          bpb_count = cumcount [] (map bump_group sorted_candidates)
      in map bumpstop_board_row (zip sorted_candidates bpb_count))"

text \<open>\<^verbatim>\<open>drop_duplicates\<close> (keeping the first row of every key).\<close>

fun drop_duplicates :: "('a \<Rightarrow> 'k) \<Rightarrow> 'k list \<Rightarrow> 'a list \<Rightarrow> 'a list" where
  "drop_duplicates key seen [] = []"
| "drop_duplicates key seen (x # xs) =
     (if key x \<in> set seen then drop_duplicates key seen xs
      else x # drop_duplicates key (key x # seen) xs)"

definition path_key :: "pathset_link \<Rightarrow> string \<times> int \<times> int" where
  "path_key l = (l_person_id l, l_trip_list_id_num l, l_pathnum l)"

text \<open>
  A row of \<^verbatim>\<open>Assignment.bump_wait_df\<close>: trip, stop sequence, stop and the pathfinding
  A-time recorded for them.
\<close>

record bump_wait_row =
  bw_trip_id_num :: int
  bw_stop_sequence :: int
  bw_stop_id_num :: int
  bw_pf_A_time :: time

text \<open>
  Lines 1464-1470: \<^verbatim>\<open>groupby([trip_id_num, stop_sequence, A_id_num]).first()\<close> over
  \<^verbatim>\<open>bumpstop_boards\<close> takes the \<^verbatim>\<open>pf_A_time\<close> of the first row of every group; the groups
  come out ordered by their key.
\<close>

definition new_bump_wait :: "bumpstop_board list \<Rightarrow> bump_wait_row list" where
  "new_bump_wait boards =
     sort_key (\<lambda>r. (bw_trip_id_num r, bw_stop_sequence r, bw_stop_id_num r))
       (drop_duplicates (\<lambda>r. (bw_trip_id_num r, bw_stop_sequence r, bw_stop_id_num r)) []
          (map (\<lambda>b. \<lparr>bw_trip_id_num = v_trip_id_num (bb_stop b),
                      bw_stop_sequence = v_stop_sequence (bb_stop b),
                      bw_stop_id_num = l_A_id_num (bb_link b),
                      bw_pf_A_time = l_pf_A_time (bb_link b)\<rparr>) boards))"

text \<open>
  Lines 1476-1486: the first table recorded becomes the registry; later tables are appended
  and \<^verbatim>\<open>drop_duplicates(subset=[trip_id_num, stop_sequence])\<close> keeps the first row of
  every trip and stop sequence.
\<close>

definition merge_bump_wait :: "bump_wait_row list option \<Rightarrow> bump_wait_row list \<Rightarrow> bump_wait_row list option" where
  "merge_bump_wait bump_wait_df new_rows =
     (case bump_wait_df of
        None \<Rightarrow> Some new_rows
      | Some old_rows \<Rightarrow>
          Some (drop_duplicates (\<lambda>r. (bw_trip_id_num r, bw_stop_sequence r)) [] (old_rows @ new_rows)))"

text \<open>
  What \<^verbatim>\<open>flag_bump_overcap_passengers\<close> returns, together with the class attribute
  \<^verbatim>\<open>Assignment.bump_wait_df\<close> as it leaves it. The paths table is returned untouched and
  is not part of the model.
\<close>

record flag_bump_result =
  chosen_paths_bumped :: nat
  fb_pathset_links_df :: "pathset_link list"
  fb_veh_loaded_df :: "veh_trip list"
  fb_bump_wait_df :: "bump_wait_row list option"

text \<open>
  \<^verbatim>\<open>flag_bump_overcap_passengers\<close>, lines 1267-1500. The first two arguments are the
  configuration values, the third the class attribute \<^verbatim>\<open>Assignment.bump_wait_df\<close>. The
  candidates are the links of chosen, unbumped paths joined to a bump stop; the unchosen,
  unbumped links joined to a bump stop are bumped with them. A bumped path has
  \<^verbatim>\<open>bump_iter\<close> set on all of its links (left merge on person, trip list number and path
  number), and every candidate link takes its \<^verbatim>\<open>new_bumpstop_boarded\<close> into
  \<^verbatim>\<open>bumpstop_boarded\<close> (left merge on person, trip list number, path number,
  \<^verbatim>\<open>trip_id_num\<close> and \<^verbatim>\<open>A_seq\<close>).
\<close>

definition flag_bump_overcap_passengers ::
  "bool \<Rightarrow> bool \<Rightarrow> bump_wait_row list option \<Rightarrow> int \<Rightarrow> int \<Rightarrow> int
     \<Rightarrow> pathset_link list \<Rightarrow> veh_trip list \<Rightarrow> flag_bump_result" where
  "flag_bump_overcap_passengers CAPACITY_CONSTRAINT BUMP_ONE_AT_A_TIME bump_wait_df
       iteration simulation_iteration bump_iter pathset_links_df veh_loaded_df =
     (let veh_loaded_df = map (set_overcap iteration simulation_iteration bump_iter) veh_loaded_df;
          pathset_links_df = mark_atcap veh_loaded_df pathset_links_df;
          overcap_df = filter (\<lambda>v. case v_overcap v of None \<Rightarrow> False | Some overcap \<Rightarrow> overcap > 0)
                         veh_loaded_df
      in if overcap_df = [] then
           \<lparr>chosen_paths_bumped = 0, fb_pathset_links_df = pathset_links_df,
            fb_veh_loaded_df = veh_loaded_df, fb_bump_wait_df = bump_wait_df\<rparr>
         else
           (let bump_stops_df = bump_stops CAPACITY_CONSTRAINT BUMP_ONE_AT_A_TIME overcap_df;
                pathset_links_df = find_passenger_vehicle_times pathset_links_df veh_loaded_df
            in if \<not> CAPACITY_CONSTRAINT then
                 \<lparr>chosen_paths_bumped = 0, fb_pathset_links_df = pathset_links_df,
                  fb_veh_loaded_df = veh_loaded_df, fb_bump_wait_df = bump_wait_df\<rparr>
               else
                 (let joined = left_merge boards_at pathset_links_df bump_stops_df;
                      candidates = filter (\<lambda>(l, v). l_chosen l \<ge> 0 \<and> l_bump_iter l < 0) (matched joined);
                      unchosen_atcap_boards =
                        filter (\<lambda>(l, v). l_chosen l < 0 \<and> l_bump_iter l < 0) (matched joined);
                      boards = bumpstop_boards candidates;
                      bumped_paths =
                        drop_duplicates (\<lambda>k. k) []
                          (map (\<lambda>b. path_key (bb_link b))
                             (filter (\<lambda>b. new_bumpstop_boarded b = 0) boards));
                      bump_paths =
                        bumped_paths @
                        drop_duplicates (\<lambda>k. k) [] (map (\<lambda>(l, v). path_key l) unchosen_atcap_boards);
                      kicked_out =
                        map (\<lambda>((l, stop), bump_iter_new).
                               if bump_iter_new \<noteq> None then l\<lparr>l_bump_iter := bump_iter\<rparr> else l)
                          (left_merge (\<lambda>(l, stop) k. path_key l = k) joined bump_paths);
                      recorded =
                        map (\<lambda>(l, b). case b of
                                 None \<Rightarrow> l
                               | Some b \<Rightarrow> l\<lparr>l_bumpstop_boarded := Some (new_bumpstop_boarded b)\<rparr>)
                          (left_merge (\<lambda>l b. path_key l = path_key (bb_link b) \<and>
                                              l_trip_id_num l = l_trip_id_num (bb_link b) \<and>
                                              l_A_seq l = l_A_seq (bb_link b)) kicked_out boards)
                  in \<lparr>chosen_paths_bumped = length bumped_paths,
                      fb_pathset_links_df = recorded,
                      fb_veh_loaded_df = veh_loaded_df,
                      fb_bump_wait_df = merge_bump_wait bump_wait_df (new_bump_wait boards)\<rparr>)))"

text \<open>
  The bump order as the specification words it (4.6, step 4): the candidates are sorted in
  the same way, "the first \<open>(boards - capacity)\<close> candidates keep their boarding; the
  remainder are bumped". Used only to compare with \<open>bumpstop_boards\<close>.
\<close>

definition spec_bumpstop_board_row :: "(pathset_link \<times> veh_trip) \<times> nat \<Rightarrow> bumpstop_board" where
  "spec_bumpstop_board_row row =
     (case row of ((l, v), i) \<Rightarrow>
        \<lparr>bb_link = l, bb_stop = v, bump_index = i,
         new_bumpstop_boarded =
           (case v_capacity v of
              None \<Rightarrow> 1
            | Some capacity \<Rightarrow> if int i < v_boards v - capacity then 1 else 0)\<rparr>)"

definition spec_bumpstop_boards :: "(pathset_link \<times> veh_trip) list \<Rightarrow> bumpstop_board list" where
  "spec_bumpstop_boards candidates =
     (let sorted_candidates = sort_key bump_order candidates;
          bpb_count = cumcount [] (map bump_group sorted_candidates)
      in map spec_bumpstop_board_row (zip sorted_candidates bpb_count))"

text \<open>
  The example continued: the vehicle table after both passengers are loaded in iteration 1,
  and the two bump candidates at stop 10 that \<open>flag_bump_overcap_passengers\<close> then finds
  (each link with board time, alight time and overcap joined, paired with the bump stop).
\<close>

definition example_veh_loaded :: "veh_trip list" where
  "example_veh_loaded =
     [\<lparr>v_trip_id = ''t1'', v_trip_id_num = 1, v_stop_sequence = 1, v_stop_id_num = 10,
       v_arrival_time = 28800, v_departure_time = 28800, v_capacity = Some 1,
       v_boards = 2, v_alights = 0, v_onboard = 2, v_overcap = Some 0,
       v_msa_boards = 2, v_msa_alights = 0, v_msa_onboard = 2, v_msa_overcap = 0\<rparr>,
      \<lparr>v_trip_id = ''t1'', v_trip_id_num = 1, v_stop_sequence = 2, v_stop_id_num = 20,
       v_arrival_time = 29400, v_departure_time = 29400, v_capacity = Some 1,
       v_boards = 0, v_alights = 2, v_onboard = 0, v_overcap = Some 0,
       v_msa_boards = 0, v_msa_alights = 2, v_msa_onboard = 0, v_msa_overcap = 0\<rparr>]"

definition example_bump_stop :: veh_trip where
  "example_bump_stop =
     \<lparr>v_trip_id = ''t1'', v_trip_id_num = 1, v_stop_sequence = 1, v_stop_id_num = 10,
      v_arrival_time = 28800, v_departure_time = 28800, v_capacity = Some 1,
      v_boards = 2, v_alights = 0, v_onboard = 2, v_overcap = Some 1,
      v_msa_boards = 2, v_msa_alights = 0, v_msa_onboard = 2, v_msa_overcap = 1\<rparr>"

definition example_candidates :: "(pathset_link \<times> veh_trip) list" where
  "example_candidates =
     [(example_link_a\<lparr>l_board_time := Some 28800, l_alight_time := Some 29400, l_overcap := Some 1\<rparr>,
       example_bump_stop),
      (example_link_b\<lparr>l_board_time := Some 28800, l_alight_time := Some 29400, l_overcap := Some 1\<rparr>,
       example_bump_stop)]"

text \<open>
  The smoothed onboard column of a vehicle table is the cumulative sum, per trip, of its
  smoothed boards minus its smoothed alights. \<open>put_passengers_on_vehicles\<close> leaves every
  table in this state.
\<close>

definition msa_onboard_cumulative :: "veh_trip list \<Rightarrow> bool" where
  "msa_onboard_cumulative veh_trips_df \<longleftrightarrow>
     map v_msa_onboard veh_trips_df =
       group_cumsum (\<lambda>_. 0) (map (\<lambda>v. (v_trip_id_num v, v_msa_boards v - v_msa_alights v)) veh_trips_df)"

text \<open>
  The averaging rule as the specification words it (4.5):
  \<open>x_new = (1/n) \<sqdot> x_raw + (1 - 1/n) \<sqdot> x_prev\<close> at outer iteration \<open>n\<close>.
\<close>

definition spec_msa :: "int \<Rightarrow> real \<Rightarrow> real \<Rightarrow> real" where
  "spec_msa n x_raw x_prev = (1 / real_of_int n) * x_raw + (1 - 1 / real_of_int n) * x_prev"

section \<open>Missed transfers\<close>

text \<open>
  \<^verbatim>\<open>flag_missed_transfers\<close>, lines 1140-1265, takes the links with board and alight times
  attached. The six columns it computes (\<^verbatim>\<open>alight_delay_min\<close>, \<^verbatim>\<open>new_A_time\<close>,
  \<^verbatim>\<open>new_B_time\<close>, \<^verbatim>\<open>new_linktime\<close>, \<^verbatim>\<open>new_waittime\<close>, \<^verbatim>\<open>missed_xfer\<close>) are dropped
  together at the start when present, so each of them is set afresh. Durations are in
  seconds: 24 hours are 86400 and 22 hours 79200.
\<close>








definition set_missed_xfer :: "pathset_link \<Rightarrow> pathset_link" where
  "set_missed_xfer l =
     l\<lparr>l_missed_xfer := (case l_new_waittime l of None \<Rightarrow> 0 | Some waittime \<Rightarrow> if waittime < 0 then 1 else 0)\<rparr>"





text \<open>
  The bump candidates of \<open>flag_bump_overcap_passengers\<close> (lines 1386-1397) as a function of
  its arguments, for the case that a vehicle row is over capacity: the table that
  \<open>bumpstop_boards\<close> is applied to there.
\<close>

definition bump_candidates ::
  "bool \<Rightarrow> bool \<Rightarrow> int \<Rightarrow> int \<Rightarrow> int \<Rightarrow> pathset_link list \<Rightarrow> veh_trip list
     \<Rightarrow> (pathset_link \<times> veh_trip) list" where
  "bump_candidates CAPACITY_CONSTRAINT BUMP_ONE_AT_A_TIME iteration simulation_iteration bump_iter
       pathset_links_df veh_loaded_df =
     (let veh_loaded_df = map (set_overcap iteration simulation_iteration bump_iter) veh_loaded_df;
          pathset_links_df = mark_atcap veh_loaded_df pathset_links_df;
          overcap_df = filter (\<lambda>v. case v_overcap v of None \<Rightarrow> False | Some overcap \<Rightarrow> overcap > 0)
                         veh_loaded_df;
          bump_stops_df = bump_stops CAPACITY_CONSTRAINT BUMP_ONE_AT_A_TIME overcap_df;
          pathset_links_df = find_passenger_vehicle_times pathset_links_df veh_loaded_df
      in filter (\<lambda>(l, v). l_chosen l \<ge> 0 \<and> l_bump_iter l < 0)
           (matched (left_merge boards_at pathset_links_df bump_stops_df)))"

text \<open>
  A second example: trip 1 of capacity 3 calls at stop 10 (sequence 1, 08:00), stop 20
  (sequence 2, 08:10) and stop 30 (sequence 3, 08:20). Passenger \<open>p\<close> rides from stop 10
  to stop 30; passengers \<open>a\<close>, \<open>b\<close> and \<open>c\<close> all reach stop 20 at 08:05 and ride to stop
  30. Below are the links, the loaded vehicle table, the bump stop (stop 20, with 3 boards,
  4 onboard and overcap 1) and the three bump candidates. Their realized and pathfinding
  A-times are equal, so only the request numbers order them.
\<close>

definition example_tied_links :: "pathset_link list" where
  "example_tied_links =
     [example_link_a\<lparr>l_person_id := ''p'', l_trip_list_id_num := 4, l_B_id_num := 30, l_B_seq := Some 3\<rparr>,
      example_link_a\<lparr>l_A_id_num := 20, l_A_seq := Some 2, l_B_id_num := 30, l_B_seq := Some 3,
        l_pf_A_time := 29100, l_new_A_time := Some 29100\<rparr>,
      example_link_a\<lparr>l_person_id := ''b'', l_trip_list_id_num := 2,
        l_A_id_num := 20, l_A_seq := Some 2, l_B_id_num := 30, l_B_seq := Some 3,
        l_pf_A_time := 29100, l_new_A_time := Some 29100\<rparr>,
      example_link_a\<lparr>l_person_id := ''c'', l_trip_list_id_num := 3,
        l_A_id_num := 20, l_A_seq := Some 2, l_B_id_num := 30, l_B_seq := Some 3,
        l_pf_A_time := 29100, l_new_A_time := Some 29100\<rparr>]"

definition example_three_stops :: "veh_trip list" where
  "example_three_stops =
     [\<lparr>v_trip_id = ''t1'', v_trip_id_num = 1, v_stop_sequence = 1, v_stop_id_num = 10,
       v_arrival_time = 28800, v_departure_time = 28800, v_capacity = Some 3,
       v_boards = 0, v_alights = 0, v_onboard = 0, v_overcap = None,
       v_msa_boards = 0, v_msa_alights = 0, v_msa_onboard = 0, v_msa_overcap = 0\<rparr>,
      \<lparr>v_trip_id = ''t1'', v_trip_id_num = 1, v_stop_sequence = 2, v_stop_id_num = 20,
       v_arrival_time = 29400, v_departure_time = 29400, v_capacity = Some 3,
       v_boards = 0, v_alights = 0, v_onboard = 0, v_overcap = None,
       v_msa_boards = 0, v_msa_alights = 0, v_msa_onboard = 0, v_msa_overcap = 0\<rparr>,
      \<lparr>v_trip_id = ''t1'', v_trip_id_num = 1, v_stop_sequence = 3, v_stop_id_num = 30,
       v_arrival_time = 30000, v_departure_time = 30000, v_capacity = Some 3,
       v_boards = 0, v_alights = 0, v_onboard = 0, v_overcap = None,
       v_msa_boards = 0, v_msa_alights = 0, v_msa_onboard = 0, v_msa_overcap = 0\<rparr>]"

definition example_tied_veh_loaded :: "veh_trip list" where
  "example_tied_veh_loaded =
     [\<lparr>v_trip_id = ''t1'', v_trip_id_num = 1, v_stop_sequence = 1, v_stop_id_num = 10,
       v_arrival_time = 28800, v_departure_time = 28800, v_capacity = Some 3,
       v_boards = 1, v_alights = 0, v_onboard = 1, v_overcap = Some 0,
       v_msa_boards = 1, v_msa_alights = 0, v_msa_onboard = 1, v_msa_overcap = 0\<rparr>,
      \<lparr>v_trip_id = ''t1'', v_trip_id_num = 1, v_stop_sequence = 2, v_stop_id_num = 20,
       v_arrival_time = 29400, v_departure_time = 29400, v_capacity = Some 3,
       v_boards = 3, v_alights = 0, v_onboard = 4, v_overcap = Some 0,
       v_msa_boards = 3, v_msa_alights = 0, v_msa_onboard = 4, v_msa_overcap = 0\<rparr>,
      \<lparr>v_trip_id = ''t1'', v_trip_id_num = 1, v_stop_sequence = 3, v_stop_id_num = 30,
       v_arrival_time = 30000, v_departure_time = 30000, v_capacity = Some 3,
       v_boards = 0, v_alights = 4, v_onboard = 0, v_overcap = Some 0,
       v_msa_boards = 0, v_msa_alights = 4, v_msa_onboard = 0, v_msa_overcap = 0\<rparr>]"

definition example_tied_bump_stop :: veh_trip where
  "example_tied_bump_stop =
     \<lparr>v_trip_id = ''t1'', v_trip_id_num = 1, v_stop_sequence = 2, v_stop_id_num = 20,
      v_arrival_time = 29400, v_departure_time = 29400, v_capacity = Some 3,
      v_boards = 3, v_alights = 0, v_onboard = 4, v_overcap = Some 1,
      v_msa_boards = 3, v_msa_alights = 0, v_msa_onboard = 4, v_msa_overcap = 1\<rparr>"

definition example_tied_candidates :: "(pathset_link \<times> veh_trip) list" where
  "example_tied_candidates =
     [(example_link_a\<lparr>l_A_id_num := 20, l_A_seq := Some 2, l_B_id_num := 30, l_B_seq := Some 3,
         l_pf_A_time := 29100, l_new_A_time := Some 29100,
         l_board_time := Some 29400, l_alight_time := Some 30000, l_overcap := Some 1\<rparr>,
       example_tied_bump_stop),
      (example_link_a\<lparr>l_person_id := ''b'', l_trip_list_id_num := 2,
         l_A_id_num := 20, l_A_seq := Some 2, l_B_id_num := 30, l_B_seq := Some 3,
         l_pf_A_time := 29100, l_new_A_time := Some 29100,
         l_board_time := Some 29400, l_alight_time := Some 30000, l_overcap := Some 1\<rparr>,
       example_tied_bump_stop),
      (example_link_a\<lparr>l_person_id := ''c'', l_trip_list_id_num := 3,
         l_A_id_num := 20, l_A_seq := Some 2, l_B_id_num := 30, l_B_seq := Some 3,
         l_pf_A_time := 29100, l_new_A_time := Some 29100,
         l_board_time := Some 29400, l_alight_time := Some 30000, l_overcap := Some 1\<rparr>,
       example_tied_bump_stop)]"

text \<open>
  Two trips over capacity at stops with the same arrival time; the rows of trip \<open>t2\<close> come
  first in the table.
\<close>

definition example_two_trips_overcap :: "veh_trip list" where
  "example_two_trips_overcap =
     [example_tied_bump_stop\<lparr>v_trip_id := ''t2'', v_trip_id_num := 2\<rparr>, example_tied_bump_stop]"

section \<open>Properties\<close>

text \<open>
  C10: when no pathset was found in an outer iteration (\<open>num_paths_found = 0\<close>), the
  capacity-gap computation raises no \<open>ZeroDivisionError\<close>: the guard takes the other
  branch and the reported capacity gap is 100.
\<close>

theorem capacity_gap_zero_assigned:
  "capacity_gap_stuff 0 num_passengers_arrived =
     Inr \<lparr>total_assigned = 0,
          arrived_passengers = num_passengers_arrived,
          missed_passengers = - num_passengers_arrived,
          capacity_gap = 100\<rparr>"
  by (simp add: capacity_gap_stuff_def)

text \<open>
  C6: at the end of an outer iteration with at least one pathset found, the reported
  capacity gap is \<open>100 \<sqdot> (assigned - arrived) / assigned\<close>, with \<open>assigned\<close> the number of
  pathsets found and \<open>arrived\<close> the number of passengers that arrived; the missed count
  reported beside it is their difference.
\<close>

theorem capacity_gap_formula:
  "0 < num_paths_found \<Longrightarrow>
   capacity_gap_stuff num_paths_found num_passengers_arrived =
     Inr \<lparr>total_assigned = num_paths_found,
          arrived_passengers = num_passengers_arrived,
          missed_passengers = num_paths_found - num_passengers_arrived,
          capacity_gap =
            100 * (real_of_int num_paths_found - real_of_int num_passengers_arrived)
              / real_of_int num_paths_found\<rparr>"
  by (simp add: capacity_gap_stuff_def py_truediv_def)

theorem capacity_gap_formula_witness:
  "(0::int) < 2 \<and>
   capacity_gap_stuff 2 1 =
     Inr \<lparr>total_assigned = 2, arrived_passengers = 1, missed_passengers = 1, capacity_gap = 50\<rparr>"
  using capacity_gap_formula [of 2 1] by simp

text \<open>
  C7: with 4 configured workers and 5 requests to pathfind the worker count stays 4 and the
  pool is used, although 5 requests are fewer than 3 per worker: the reduction is guarded
  by \<open>num_processes > 3 \<sqdot> est_paths_to_find\<close>, not by \<open>3 \<sqdot> num_processes > est_paths_to_find\<close>.
\<close>

theorem pool_used_with_fewer_than_three_per_worker:
  "num_processes_for 4 cpu_count 5 = 4 \<and> uses_pool 4 cpu_count 5 \<and> \<not> 3 * (4::int) \<le> 5"
  by (simp add: uses_pool_def num_processes_for_def)

text \<open>
  C9: a keyboard interrupt while two workers are registered. The loop of the handler visits
  the worker number 1, on which \<open>terminate\<close> raises \<open>AttributeError\<close>; no process is
  terminated (both are still running) and \<open>sys.exit(2)\<close> is not reached.
\<close>

theorem keyboard_interrupt_two_workers:
  "keyboard_interrupt_handler
     [(1, \<lparr>process_running = True, alive = True, is_done = False, working_on = Some (''p1'', 7)\<rparr>),
      (2, \<lparr>process_running = True, alive = True, is_done = False, working_on = None\<rparr>)] =
   ([(1, \<lparr>process_running = True, alive = True, is_done = False, working_on = Some (''p1'', 7)\<rparr>),
     (2, \<lparr>process_running = True, alive = True, is_done = False, working_on = None\<rparr>)],
    Propagates AttributeError)"
  by (simp add: keyboard_interrupt_handler_def terminate_def)

subsection \<open>Left merges\<close>

lemma left_merge_Nil: "left_merge on [] right = []"
  by (simp add: left_merge_def)

lemma left_merge_Cons:
  "left_merge on (l # left) right =
     (case filter (on l) right of [] \<Rightarrow> [(l, None)] | ms \<Rightarrow> map (\<lambda>r. (l, Some r)) ms)
     @ left_merge on left right"
  by (simp add: left_merge_def)

lemma left_merge_unmatched:
  "map fst (filter (\<lambda>(l, r). r = None) (left_merge on left right)) =
     filter (\<lambda>l. \<forall>r \<in> set right. \<not> on l r) left"
proof (induction left)
  case Nil
  show ?case by (simp add: left_merge_Nil)
next
  case (Cons l left)
  show ?case
  proof (cases "filter (on l) right")
    case Nil
    then have "\<forall>r \<in> set right. \<not> on l r"
      by (simp add: filter_empty_conv)
    with Nil Cons.IH show ?thesis
      by (simp add: left_merge_Cons)
  next
    case (Cons m ms)
    then have "m \<in> set (filter (on l) right)"
      by simp
    then have "\<exists>r \<in> set right. on l r"
      by auto
    with Cons Cons.IH show ?thesis
      by (auto simp add: left_merge_Cons filter_empty_conv o_def split_def)
  qed
qed

subsection \<open>Pathfinding on even iterations\<close>

lemma filter_trip_list_to_not_arrived_eq:
  "filter_trip_list_to_not_arrived trip_list_df pathset_paths_df =
     filter (\<lambda>t. \<forall>p \<in> set pathset_paths_df.
                    p_trip_list_id_num p = t_trip_list_id_num t \<longrightarrow> p_chosen p < 0) trip_list_df"
  unfolding filter_trip_list_to_not_arrived_def Let_def left_merge_unmatched
  by (rule filter_cong) (auto simp add: not_le)

lemma drop_pathfound_eq:
  "drop_pathfound ident pathfind_trip_list_df rows =
     filter (\<lambda>r. ident r \<notin> t_trip_list_id_num ` set pathfind_trip_list_df) rows"
  unfolding drop_pathfound_def left_merge_unmatched
  by (rule filter_cong) auto

text \<open>
  C5: on an even outer iteration the path search runs only for requests of the trip list
  that have no path with \<open>chosen \<ge> 0\<close>; the class attribute \<open>PATHFINDING_EVERYONE\<close> is
  false afterwards, so the driver merges: the rows (paths and links) of the requests that
  were selected for pathfinding are removed, every other row is kept unchanged and in
  order, and the new rows are appended (new paths with \<open>chosen = -1\<close> and
  \<open>missed_xfer = 0\<close>).
\<close>

theorem even_iteration_pathfinds_not_arrived:
  assumes "iteration mod 2 = 0"
    and "pathfind_trip_list PATHFINDING_EVERYONE iteration trip_list_df pathset_paths_df =
           (PATHFINDING_EVERYONE', pathfind_trip_list_df)"
  shows "pathfind_trip_list_df =
           filter (\<lambda>t. \<forall>p \<in> set pathset_paths_df.
                          p_trip_list_id_num p = t_trip_list_id_num t \<longrightarrow> p_chosen p < 0) trip_list_df
       \<and> set (requests_searched DEBUG_TRACE_ONLY TRACE_PERSON_IDS goes_somewhere pathfind_trip_list_df)
           \<subseteq> {t \<in> set trip_list_df. \<forall>p \<in> set pathset_paths_df.
                          p_trip_list_id_num p = t_trip_list_id_num t \<longrightarrow> p_chosen p < 0}
       \<and> snd (assign_paths_pathsets PATHFINDING_EVERYONE' pathfind_trip_list_df num_paths_found
                pathset_paths_df new_pathset_paths_df) =
           filter (\<lambda>p. p_trip_list_id_num p \<notin> t_trip_list_id_num ` set pathfind_trip_list_df)
             pathset_paths_df @
           map (\<lambda>p. p\<lparr>p_chosen := - 1, p_missed_xfer := Some 0\<rparr>) new_pathset_paths_df
       \<and> merge_pathsets_links pathfind_trip_list_df pathset_links_df new_pathset_links_df =
           filter (\<lambda>l. l_trip_list_id_num l \<notin> t_trip_list_id_num ` set pathfind_trip_list_df)
             pathset_links_df @ new_pathset_links_df"
proof -
  from assms have flag: "PATHFINDING_EVERYONE' = False"
    and sel: "pathfind_trip_list_df = filter_trip_list_to_not_arrived trip_list_df pathset_paths_df"
    by (simp_all add: pathfind_trip_list_def)
  from sel have first: "pathfind_trip_list_df =
      filter (\<lambda>t. \<forall>p \<in> set pathset_paths_df.
                p_trip_list_id_num p = t_trip_list_id_num t \<longrightarrow> p_chosen p < 0) trip_list_df"
    by (simp add: filter_trip_list_to_not_arrived_eq)
  have "set (requests_searched DEBUG_TRACE_ONLY TRACE_PERSON_IDS goes_somewhere pathfind_trip_list_df)
          \<subseteq> set pathfind_trip_list_df"
    by (auto simp add: requests_searched_def)
  also have "set pathfind_trip_list_df =
      {t \<in> set trip_list_df. \<forall>p \<in> set pathset_paths_df.
          p_trip_list_id_num p = t_trip_list_id_num t \<longrightarrow> p_chosen p < 0}"
    by (subst first) simp
  finally have second:
    "set (requests_searched DEBUG_TRACE_ONLY TRACE_PERSON_IDS goes_somewhere pathfind_trip_list_df)
      \<subseteq> {t \<in> set trip_list_df. \<forall>p \<in> set pathset_paths_df.
            p_trip_list_id_num p = t_trip_list_id_num t \<longrightarrow> p_chosen p < 0}" .
  have third: "snd (assign_paths_pathsets PATHFINDING_EVERYONE' pathfind_trip_list_df num_paths_found
                pathset_paths_df new_pathset_paths_df) =
           filter (\<lambda>p. p_trip_list_id_num p \<notin> t_trip_list_id_num ` set pathfind_trip_list_df)
             pathset_paths_df @
           map (\<lambda>p. p\<lparr>p_chosen := - 1, p_missed_xfer := Some 0\<rparr>) new_pathset_paths_df"
    by (simp add: flag assign_paths_pathsets_def merge_pathsets_paths_def drop_pathfound_eq
        CHOSEN_NOT_CHOSEN_YET_def Let_def)
  have fourth: "merge_pathsets_links pathfind_trip_list_df pathset_links_df new_pathset_links_df =
           filter (\<lambda>l. l_trip_list_id_num l \<notin> t_trip_list_id_num ` set pathfind_trip_list_df)
             pathset_links_df @ new_pathset_links_df"
    by (simp add: merge_pathsets_links_def drop_pathfound_eq)
  from first second third fourth show ?thesis
    by blast
qed

theorem even_iteration_pathfinds_not_arrived_witness:
  "(2::int) mod 2 = 0 \<and>
   pathfind_trip_list True 2
     [\<lparr>t_person_id = ''a'', t_trip_list_id_num = 1\<rparr>, \<lparr>t_person_id = ''b'', t_trip_list_id_num = 2\<rparr>]
     [\<lparr>p_person_id = ''a'', p_trip_list_id_num = 1, p_pathnum = 0, p_chosen = 1, p_missed_xfer = Some 0\<rparr>,
      \<lparr>p_person_id = ''b'', p_trip_list_id_num = 2, p_pathnum = 0, p_chosen = - 2, p_missed_xfer = Some 1\<rparr>]
     = (False, [\<lparr>t_person_id = ''b'', t_trip_list_id_num = 2\<rparr>]) \<and>
   snd (assign_paths_pathsets False [\<lparr>t_person_id = ''b'', t_trip_list_id_num = 2\<rparr>] 1
     [\<lparr>p_person_id = ''a'', p_trip_list_id_num = 1, p_pathnum = 0, p_chosen = 1, p_missed_xfer = Some 0\<rparr>,
      \<lparr>p_person_id = ''b'', p_trip_list_id_num = 2, p_pathnum = 0, p_chosen = - 2, p_missed_xfer = Some 1\<rparr>]
     [\<lparr>p_person_id = ''b'', p_trip_list_id_num = 2, p_pathnum = 1, p_chosen = 0, p_missed_xfer = None\<rparr>])
     = [\<lparr>p_person_id = ''a'', p_trip_list_id_num = 1, p_pathnum = 0, p_chosen = 1, p_missed_xfer = Some 0\<rparr>,
        \<lparr>p_person_id = ''b'', p_trip_list_id_num = 2, p_pathnum = 1, p_chosen = - 1, p_missed_xfer = Some 0\<rparr>]"
proof -
  have even: "(2::int) mod 2 = 0"
    by simp
  have sel: "pathfind_trip_list True 2
     [\<lparr>t_person_id = ''a'', t_trip_list_id_num = 1\<rparr>, \<lparr>t_person_id = ''b'', t_trip_list_id_num = 2\<rparr>]
     [\<lparr>p_person_id = ''a'', p_trip_list_id_num = 1, p_pathnum = 0, p_chosen = 1, p_missed_xfer = Some 0\<rparr>,
      \<lparr>p_person_id = ''b'', p_trip_list_id_num = 2, p_pathnum = 0, p_chosen = - 2, p_missed_xfer = Some 1\<rparr>]
     = (False, [\<lparr>t_person_id = ''b'', t_trip_list_id_num = 2\<rparr>])"
    by (simp add: pathfind_trip_list_def filter_trip_list_to_not_arrived_def left_merge_def)
  from even_iteration_pathfinds_not_arrived [OF even sel, of _ _ _ 1
      "[\<lparr>p_person_id = ''b'', p_trip_list_id_num = 2, p_pathnum = 1, p_chosen = 0, p_missed_xfer = None\<rparr>]"]
  have "snd (assign_paths_pathsets False [\<lparr>t_person_id = ''b'', t_trip_list_id_num = 2\<rparr>] 1
     [\<lparr>p_person_id = ''a'', p_trip_list_id_num = 1, p_pathnum = 0, p_chosen = 1, p_missed_xfer = Some 0\<rparr>,
      \<lparr>p_person_id = ''b'', p_trip_list_id_num = 2, p_pathnum = 0, p_chosen = - 2, p_missed_xfer = Some 1\<rparr>]
     [\<lparr>p_person_id = ''b'', p_trip_list_id_num = 2, p_pathnum = 1, p_chosen = 0, p_missed_xfer = None\<rparr>])
     = [\<lparr>p_person_id = ''a'', p_trip_list_id_num = 1, p_pathnum = 0, p_chosen = 1, p_missed_xfer = Some 0\<rparr>,
        \<lparr>p_person_id = ''b'', p_trip_list_id_num = 2, p_pathnum = 1, p_chosen = - 1, p_missed_xfer = Some 0\<rparr>]"
    by simp
  with even sel show ?thesis
    by blast
qed

subsection \<open>Vehicle loads\<close>


lemma group_cumsum_length: "length (group_cumsum acc kvs) = length kvs"
proof (induction kvs arbitrary: acc)
  case Nil
  show ?case by simp
next
  case (Cons kv kvs)
  then show ?case by (cases kv) simp
qed

lemma group_cumsum_nth:
  "i < length kvs \<Longrightarrow>
   group_cumsum acc kvs ! i =
     acc (fst (kvs ! i)) + sum_list (map snd (filter (\<lambda>kv. fst kv = fst (kvs ! i)) (take (Suc i) kvs)))"
proof (induction kvs arbitrary: acc i)
  case Nil
  then show ?case by simp
next
  case (Cons kv rest)
  obtain k x where kv: "kv = (k, x)" by (cases kv)
  show ?case
  proof (cases i)
    case 0
    with kv show ?thesis by simp
  next
    case (Suc j)
    with Cons.prems have j: "j < length rest" by simp
    have "group_cumsum (acc(k := acc k + x)) rest ! j =
        (acc(k := acc k + x)) (fst (rest ! j)) +
        sum_list (map snd (filter (\<lambda>kv. fst kv = fst (rest ! j)) (take (Suc j) rest)))"
      by (rule Cons.IH [OF j])
    with Suc kv show ?thesis
      by (simp add: add.assoc)
  qed
qed

lemma filter_key_distinct:
  "distinct (map fst ps) \<Longrightarrow> (k, c) \<in> set ps \<Longrightarrow> filter (\<lambda>(idx, c'). idx = k) ps = [(k, c)]"
proof (induction ps)
  case Nil
  then show ?case by simp
next
  case (Cons p ps)
  obtain k' c' where p: "p = (k', c')" by (cases p)
  show ?case
  proof (cases "k' = k")
    case True
    with Cons.prems p have "c' = c" and "\<forall>q \<in> set ps. fst q \<noteq> k"
      by (auto simp add: image_iff)
    then have "filter (\<lambda>(idx, c'). idx = k) ps = []"
      by (auto simp add: filter_empty_conv)
    with True p \<open>c' = c\<close> show ?thesis by simp
  next
    case False
    with Cons p show ?thesis by auto
  qed
qed

lemma left_merge_self:
  assumes "distinct (map key vs)" and "length cs = length vs"
  shows "left_merge (\<lambda>v (idx, c). idx = key v) vs (zip (map key vs) cs) =
           map (\<lambda>(v, c). (v, Some (key v, c))) (zip vs cs)"
proof -
  let ?right = "zip (map key vs) cs"
  let ?F = "\<lambda>l. case filter (\<lambda>(idx, c). idx = key l) ?right of
                   [] \<Rightarrow> [(l, None)] | ms \<Rightarrow> map (\<lambda>r. (l, Some r)) ms"
  have dist: "distinct (map fst ?right)"
    using assms by (simp add: map_fst_zip)
  have vs: "vs = map fst (zip vs cs)"
    using assms by (simp add: map_fst_zip)
  have "left_merge (\<lambda>v (idx, c). idx = key v) vs ?right = concat (map ?F vs)"
    by (simp add: left_merge_def)
  also have "\<dots> = concat (map (\<lambda>p. ?F (fst p)) (zip vs cs))"
    by (subst vs) (simp add: o_def del: map_fst_zip)
  also have "\<dots> = concat (map (\<lambda>p. [(fst p, Some (key (fst p), snd p))]) (zip vs cs))"
  proof (rule arg_cong [where f = concat], rule map_cong [OF refl])
    fix p assume "p \<in> set (zip vs cs)"
    then have "(\<lambda>(v, c). (key v, c)) p \<in> set (map (\<lambda>(v, c). (key v, c)) (zip vs cs))"
      by (rule imageI [of p "set (zip vs cs)" "\<lambda>(v, c). (key v, c)", unfolded set_map [symmetric]])
    then have "(key (fst p), snd p) \<in> set ?right"
      by (simp add: zip_map1 split_def)
    from filter_key_distinct [OF dist this]
    show "?F (fst p) = [(fst p, Some (key (fst p), snd p))]"
      by simp
  qed
  also have "\<dots> = map (\<lambda>(v, c). (v, Some (key v, c))) (zip vs cs)"
    by (induction "zip vs cs") (auto simp add: split_def)
  finally show ?thesis .
qed

lemma trips_in_sequence_distinct:
  assumes "trips_in_sequence vs"
  shows "distinct (map (\<lambda>v. (v_trip_id_num v, v_stop_sequence v)) vs)"
proof -
  have less: "v_trip_id_num (vs ! i) = v_trip_id_num (vs ! j) \<longrightarrow> v_stop_sequence (vs ! i) < v_stop_sequence (vs ! j)"
    if "i < j" "j < length vs" for i j
    using assms that by (simp add: trips_in_sequence_def sorted_wrt_iff_nth_less)
  have "i = j" if i: "i < length vs" and j: "j < length vs"
      and eq: "v_trip_id_num (vs ! i) = v_trip_id_num (vs ! j)" "v_stop_sequence (vs ! i) = v_stop_sequence (vs ! j)"
    for i j
  proof (rule ccontr)
    assume "i \<noteq> j"
    then consider "i < j" | "j < i" by linarith
    then show False
    proof cases
      case 1
      from less [OF 1 j] eq show False by simp
    next
      case 2
      from less [OF 2 i] eq show False by simp
    qed
  qed
  then show ?thesis
    unfolding distinct_conv_nth by (simp del: not_less) blast
qed

text \<open>The rows after the boards, alights and averages are set, before onboard.\<close>

lemma msa_boards_alights_Inr:
  "iteration \<noteq> 0 \<or> bump_iter \<noteq> 0 \<Longrightarrow>
   msa_boards_alights iteration bump_iter rows =
     Inr (if bump_iter = 0 then map (msa_row (1 / real_of_int iteration)) rows else rows)"
  by (auto simp add: msa_boards_alights_def py_truediv_def)

lemma put_passengers_on_vehicles_Inr:
  assumes seq: "trips_in_sequence veh_trips_df"
    and it: "iteration \<noteq> 0 \<or> bump_iter \<noteq> 0"
    and rows: "rows = (if bump_iter = 0
                       then map (msa_row (1 / real_of_int iteration) \<circ> load_row (get_chosen_links pathset_links_df)) veh_trips_df
                       else map (load_row (get_chosen_links pathset_links_df)) veh_trips_df)"
  shows "put_passengers_on_vehicles get_chosen_links iteration bump_iter pathset_links_df veh_trips_df =
     Inr (map (\<lambda>(v, onboard, msa_onboard). v\<lparr>v_onboard := onboard, v_msa_onboard := msa_onboard\<rparr>)
       (zip rows
          (zip (group_cumsum (\<lambda>_. 0) (map (\<lambda>v. (v_trip_id_num v, v_boards v - v_alights v)) rows))
               (group_cumsum (\<lambda>_. 0) (map (\<lambda>v. (v_trip_id_num v, v_msa_boards v - v_msa_alights v)) rows)))))"
proof -
  let ?key = "\<lambda>v. (v_trip_id_num v, v_stop_sequence v)"
  let ?cs = "zip (group_cumsum (\<lambda>_. 0) (map (\<lambda>v. (v_trip_id_num v, v_boards v - v_alights v)) rows))
               (group_cumsum (\<lambda>_. 0) (map (\<lambda>v. (v_trip_id_num v, v_msa_boards v - v_msa_alights v)) rows))"
  have keys: "map ?key rows = map ?key veh_trips_df"
    by (simp add: rows msa_row_def load_row_def)
  have len: "length rows = length veh_trips_df"
    by (simp add: rows)
  have msa: "msa_boards_alights iteration bump_iter (map (load_row (get_chosen_links pathset_links_df)) veh_trips_df)
      = Inr rows"
    by (simp add: msa_boards_alights_Inr [OF it] rows)
  have dist: "distinct (map ?key rows)"
    unfolding keys by (rule trips_in_sequence_distinct [OF seq])
  have lencs: "length ?cs = length rows"
    by (simp add: group_cumsum_length)
  have merged: "left_merge (\<lambda>v (idx, c). idx = ?key v) rows (trips_cumsum rows) =
      map (\<lambda>(v, c). (v, Some (?key v, c))) (zip rows ?cs)"
    unfolding trips_cumsum_def by (rule left_merge_self [OF dist lencs])
  have "put_passengers_on_vehicles get_chosen_links iteration bump_iter pathset_links_df veh_trips_df =
      Inr (map set_onboard (map (\<lambda>(v, c). (v, Some (?key v, c))) (zip rows ?cs)))"
    by (simp add: put_passengers_on_vehicles_def msa merged len [symmetric] group_cumsum_length Let_def)
  also have "map set_onboard (map (\<lambda>(v, c). (v, Some (?key v, c))) (zip rows ?cs)) =
      map (\<lambda>(v, onboard, msa_onboard). v\<lparr>v_onboard := onboard, v_msa_onboard := msa_onboard\<rparr>) (zip rows ?cs)"
    by (simp add: set_onboard_def split_def)
  finally show ?thesis .
qed

lemma trips_in_sequence_keys:
  "trips_in_sequence vs \<longleftrightarrow>
     sorted_wrt (\<lambda>a b. fst a = fst b \<longrightarrow> snd a < snd b) (map (\<lambda>v. (v_trip_id_num v, v_stop_sequence v)) vs)"
  by (simp add: trips_in_sequence_def sorted_wrt_map)

lemma trips_in_sequence_prefix:
  assumes seq: "trips_in_sequence vs" and i: "i < length vs"
  shows "filter (\<lambda>r. v_trip_id_num r = v_trip_id_num (vs ! i) \<and> v_stop_sequence r \<le> v_stop_sequence (vs ! i)) vs =
         filter (\<lambda>r. v_trip_id_num r = v_trip_id_num (vs ! i)) (take (Suc i) vs)"
proof -
  let ?t = "v_trip_id_num (vs ! i)" and ?s = "v_stop_sequence (vs ! i)"
  have less: "v_trip_id_num (vs ! a) = v_trip_id_num (vs ! b) \<longrightarrow> v_stop_sequence (vs ! a) < v_stop_sequence (vs ! b)"
    if "a < b" "b < length vs" for a b
    using seq that by (simp add: trips_in_sequence_def sorted_wrt_iff_nth_less)
  have in_prefix: "filter (\<lambda>r. v_trip_id_num r = ?t \<and> v_stop_sequence r \<le> ?s) (take (Suc i) vs) =
               filter (\<lambda>r. v_trip_id_num r = ?t) (take (Suc i) vs)"
  proof (rule filter_cong [OF refl])
    fix r assume "r \<in> set (take (Suc i) vs)"
    then obtain a where a: "a < Suc i" "a < length vs" and r: "r = vs ! a"
      by (auto simp add: in_set_conv_nth)
    show "(v_trip_id_num r = ?t \<and> v_stop_sequence r \<le> ?s) = (v_trip_id_num r = ?t)"
    proof (cases "a = i")
      case True
      with r show ?thesis by simp
    next
      case False
      with a have "a < i" by simp
      from less [OF this i] r show ?thesis by auto
    qed
  qed
  have after_prefix: "filter (\<lambda>r. v_trip_id_num r = ?t \<and> v_stop_sequence r \<le> ?s) (drop (Suc i) vs) = []"
  proof -
    have "\<not> (v_trip_id_num r = ?t \<and> v_stop_sequence r \<le> ?s)" if "r \<in> set (drop (Suc i) vs)" for r
    proof -
      from that obtain b where b: "b < length (drop (Suc i) vs)" and r: "r = drop (Suc i) vs ! b"
        by (auto simp add: in_set_conv_nth)
      then have r': "r = vs ! (Suc i + b)" and lt: "Suc i + b < length vs"
        by simp_all
      have "i < Suc i + b" by simp
      from less [OF this lt] r' show ?thesis by auto
    qed
    then show ?thesis
      by (simp add: filter_empty_conv)
  qed
  have "filter (\<lambda>r. v_trip_id_num r = ?t \<and> v_stop_sequence r \<le> ?s) vs =
        filter (\<lambda>r. v_trip_id_num r = ?t \<and> v_stop_sequence r \<le> ?s) (take (Suc i) vs @ drop (Suc i) vs)"
    by simp
  also have "\<dots> = filter (\<lambda>r. v_trip_id_num r = ?t) (take (Suc i) vs)"
    unfolding filter_append in_prefix after_prefix by simp
  finally show ?thesis .
qed

lemma cumsum_as_prefix_sum:
  assumes "i < length rows"
  shows "group_cumsum (\<lambda>_. 0) (map (\<lambda>v. (key v, val v)) rows) ! i =
         sum_list (map val (filter (\<lambda>v. key v = key (rows ! i)) (take (Suc i) rows)))"
proof -
  have "group_cumsum (\<lambda>_. 0) (map (\<lambda>v. (key v, val v)) rows) ! i =
        sum_list (map snd (filter (\<lambda>kv. fst kv = key (rows ! i)) (take (Suc i) (map (\<lambda>v. (key v, val v)) rows))))"
    using assms by (simp add: group_cumsum_nth)
  also have "\<dots> = sum_list (map val (filter (\<lambda>v. key v = key (rows ! i)) (take (Suc i) rows)))"
    by (simp add: take_map filter_map o_def)
  finally show ?thesis .
qed

text \<open>
  C3: for a vehicle table whose trips are in stop-sequence order,
  \<open>put_passengers_on_vehicles\<close> returns a table of the same length in which boards and
  alights count the unbumped chosen links boarding and alighting at the row's trip, stop
  and sequence, and the onboard count of every row is the sum of \<open>boards - alights\<close> over
  the rows of the same trip with a stop sequence up to its own.
\<close>

theorem onboard_is_cumulative_boards_minus_alights:
  assumes seq: "trips_in_sequence veh_trips_df" and it: "1 \<le> iteration"
  shows "\<exists>veh_loaded_df.
           put_passengers_on_vehicles get_chosen_links iteration bump_iter pathset_links_df veh_trips_df
             = Inr veh_loaded_df \<and>
           length veh_loaded_df = length veh_trips_df \<and>
           (\<forall>r \<in> set veh_loaded_df.
              v_boards r = passenger_trips_boards (get_chosen_links pathset_links_df) r \<and>
              v_alights r = passenger_trips_alights (get_chosen_links pathset_links_df) r \<and>
              v_onboard r =
                sum_list (map (\<lambda>r'. v_boards r' - v_alights r')
                  (filter (\<lambda>r'. v_trip_id_num r' = v_trip_id_num r \<and>
                                 v_stop_sequence r' \<le> v_stop_sequence r) veh_loaded_df)))"
proof -
  define rows where "rows = (if bump_iter = 0
      then map (msa_row (1 / real_of_int iteration) \<circ> load_row (get_chosen_links pathset_links_df)) veh_trips_df
      else map (load_row (get_chosen_links pathset_links_df)) veh_trips_df)"
  define C1 where "C1 = group_cumsum (\<lambda>_. 0) (map (\<lambda>v. (v_trip_id_num v, v_boards v - v_alights v)) rows)"
  define C2 where "C2 = group_cumsum (\<lambda>_. 0) (map (\<lambda>v. (v_trip_id_num v, v_msa_boards v - v_msa_alights v)) rows)"
  define R where "R = map (\<lambda>(v, onboard, msa_onboard). v\<lparr>v_onboard := onboard, v_msa_onboard := msa_onboard\<rparr>)
      (zip rows (zip C1 C2))"
  from it have "iteration \<noteq> 0 \<or> bump_iter \<noteq> 0" by simp
  from put_passengers_on_vehicles_Inr [where get_chosen_links = get_chosen_links
      and pathset_links_df = pathset_links_df, OF seq this rows_def]
  have res: "put_passengers_on_vehicles get_chosen_links iteration bump_iter pathset_links_df veh_trips_df = Inr R"
    by (simp add: R_def C1_def C2_def)
  have len_rows: "length rows = length veh_trips_df"
    by (simp add: rows_def)
  have len_C: "length C1 = length rows" "length C2 = length rows"
    by (simp_all add: C1_def C2_def group_cumsum_length)
  have len_R: "length R = length veh_trips_df"
    by (simp add: R_def len_C len_rows)
  have nth_R: "R ! i = (rows ! i)\<lparr>v_onboard := C1 ! i, v_msa_onboard := C2 ! i\<rparr>" if "i < length R" for i
    using that by (simp add: R_def len_C)
  have keys_rows: "v_trip_id_num (rows ! i) = v_trip_id_num (veh_trips_df ! i)"
      "v_stop_sequence (rows ! i) = v_stop_sequence (veh_trips_df ! i)"
      "v_stop_id_num (rows ! i) = v_stop_id_num (veh_trips_df ! i)"
      "v_boards (rows ! i) = passenger_trips_boards (get_chosen_links pathset_links_df) (veh_trips_df ! i)"
      "v_alights (rows ! i) = passenger_trips_alights (get_chosen_links pathset_links_df) (veh_trips_df ! i)"
    if "i < length veh_trips_df" for i
    using that by (simp_all add: rows_def msa_row_def load_row_def)
  have keys_R: "map (\<lambda>v. (v_trip_id_num v, v_stop_sequence v)) R =
      map (\<lambda>v. (v_trip_id_num v, v_stop_sequence v)) veh_trips_df"
    by (rule nth_equalityI) (simp_all add: len_R nth_R keys_rows)
  have proj_R: "map (\<lambda>v. (v_trip_id_num v, v_boards v - v_alights v)) R =
      map (\<lambda>v. (v_trip_id_num v, v_boards v - v_alights v)) rows"
    by (rule nth_equalityI) (simp_all add: len_R len_rows nth_R)
  have seq_R: "trips_in_sequence R"
    using seq by (simp add: trips_in_sequence_keys keys_R)
  have main: "v_boards r = passenger_trips_boards (get_chosen_links pathset_links_df) r \<and>
      v_alights r = passenger_trips_alights (get_chosen_links pathset_links_df) r \<and>
      v_onboard r =
        sum_list (map (\<lambda>r'. v_boards r' - v_alights r')
          (filter (\<lambda>r'. v_trip_id_num r' = v_trip_id_num r \<and> v_stop_sequence r' \<le> v_stop_sequence r) R))"
    if "r \<in> set R" for r
  proof -
    from that obtain i where i: "i < length R" and r: "r = R ! i"
      by (auto simp add: in_set_conv_nth)
    from i have i': "i < length veh_trips_df" "i < length rows"
      by (simp_all add: len_R len_rows)
    have counts: "v_boards r = passenger_trips_boards (get_chosen_links pathset_links_df) r"
        "v_alights r = passenger_trips_alights (get_chosen_links pathset_links_df) r"
      using i i' by (simp_all add: r nth_R keys_rows passenger_trips_boards_def passenger_trips_alights_def)
    have "v_onboard r = C1 ! i"
      using i by (simp add: r nth_R)
    also have "\<dots> = group_cumsum (\<lambda>_. 0) (map (\<lambda>v. (v_trip_id_num v, v_boards v - v_alights v)) R) ! i"
      by (simp add: C1_def proj_R)
    also have "\<dots> = sum_list (map (\<lambda>r'. v_boards r' - v_alights r')
        (filter (\<lambda>r'. v_trip_id_num r' = v_trip_id_num (R ! i)) (take (Suc i) R)))"
      by (rule cumsum_as_prefix_sum [OF i])
    also have "\<dots> = sum_list (map (\<lambda>r'. v_boards r' - v_alights r')
        (filter (\<lambda>r'. v_trip_id_num r' = v_trip_id_num (R ! i) \<and>
                       v_stop_sequence r' \<le> v_stop_sequence (R ! i)) R))"
      by (simp only: trips_in_sequence_prefix [OF seq_R i])
    finally show ?thesis
      using counts by (simp add: r)
  qed
  from res len_R main show ?thesis
    by blast
qed

theorem onboard_is_cumulative_boards_minus_alights_witness:
  "trips_in_sequence example_veh_trips \<and> (1::int) \<le> 1 \<and>
   (\<exists>veh_loaded_df.
      put_passengers_on_vehicles example_get_chosen_links 1 0 [example_link_a, example_link_b]
        example_veh_trips = Inr veh_loaded_df \<and>
      length veh_loaded_df = length example_veh_trips \<and>
      map v_boards veh_loaded_df = [2, 0] \<and>
      map v_alights veh_loaded_df = [0, 2] \<and>
      map v_onboard veh_loaded_df = [2, 0] \<and>
      (\<forall>r \<in> set veh_loaded_df.
         v_onboard r =
           sum_list (map (\<lambda>r'. v_boards r' - v_alights r')
             (filter (\<lambda>r'. v_trip_id_num r' = v_trip_id_num r \<and>
                            v_stop_sequence r' \<le> v_stop_sequence r) veh_loaded_df))))"
proof -
  have seq: "trips_in_sequence example_veh_trips"
    by (simp add: trips_in_sequence_def example_veh_trips_def)
  have it: "(1::int) \<le> 1"
    by simp
  from onboard_is_cumulative_boards_minus_alights [OF seq it, where bump_iter = 0
      and get_chosen_links = example_get_chosen_links
      and pathset_links_df = "[example_link_a, example_link_b]"]
  obtain R where R: "put_passengers_on_vehicles example_get_chosen_links 1 0
        [example_link_a, example_link_b] example_veh_trips = Inr R"
      "length R = length example_veh_trips"
      "\<forall>r \<in> set R. v_onboard r =
           sum_list (map (\<lambda>r'. v_boards r' - v_alights r')
             (filter (\<lambda>r'. v_trip_id_num r' = v_trip_id_num r \<and>
                            v_stop_sequence r' \<le> v_stop_sequence r) R))"
    by blast
  have "\<exists>R'. put_passengers_on_vehicles example_get_chosen_links 1 0
        [example_link_a, example_link_b] example_veh_trips = Inr R' \<and>
      map v_boards R' = [2, 0] \<and> map v_alights R' = [0, 2] \<and> map v_onboard R' = [2, 0]"
    by (simp add: put_passengers_on_vehicles_def example_get_chosen_links_def example_link_a_def
        example_link_b_def example_veh_trips_def load_row_def msa_boards_alights_def py_truediv_def
        msa_row_def left_merge_def trips_cumsum_def passenger_trips_boards_def
        passenger_trips_alights_def set_onboard_def fillna0_def)
  with R(1) have vals: "map v_boards R = [2, 0] \<and> map v_alights R = [0, 2] \<and> map v_onboard R = [2, 0]"
    by simp
  show ?thesis
  proof (intro conjI exI [of _ R])
    show "\<forall>r \<in> set R. v_onboard r =
           sum_list (map (\<lambda>r'. v_boards r' - v_alights r')
             (filter (\<lambda>r'. v_trip_id_num r' = v_trip_id_num r \<and>
                            v_stop_sequence r' \<le> v_stop_sequence r) R))"
      by (rule R(3))
  qed (simp_all add: seq R(1,2) vals)
qed

subsection \<open>Bump order\<close>

lemma cumcount_length: "length (cumcount seen ks) = length ks"
  by (induction ks arbitrary: seen) simp_all

lemma cumcount_group:
  "map snd (filter (\<lambda>(k, i). k = g) (zip ks (cumcount seen ks))) =
     [count_list seen g ..< count_list seen g + count_list ks g]"
proof (induction ks arbitrary: seen)
  case Nil
  show ?case by simp
next
  case (Cons k ks)
  show ?case
  proof (cases "k = g")
    case True
    have "map snd (filter (\<lambda>(k, i). k = g) (zip (k # ks) (cumcount seen (k # ks)))) =
        count_list seen g # [count_list (g # seen) g ..< count_list (g # seen) g + count_list ks g]"
      using True Cons.IH [of "g # seen"] by simp
    also have "\<dots> = [count_list seen g ..< count_list seen g + count_list (k # ks) g]"
      using True by (simp add: upt_conv_Cons)
    finally show ?thesis .
  next
    case False
    then show ?thesis
      using Cons.IH [of "k # seen"] by simp
  qed
qed

lemma length_filter_below: "length (filter (\<lambda>i. int i < m) [0..<n]) = min (nat m) n"
proof (induction n)
  case 0
  show ?case by simp
next
  case (Suc n)
  then show ?case by (auto simp add: min_def)
qed

lemma count_list_length_filter: "count_list xs x = length (filter (\<lambda>y. y = x) xs)"
  by (induction xs) simp_all

lemma bumpstop_boards_candidates:
  "map (\<lambda>b. (bb_link b, bb_stop b)) (bumpstop_boards candidates) = sort_key bump_order candidates"
  by (rule nth_equalityI)
    (simp_all add: bumpstop_boards_def Let_def cumcount_length bumpstop_board_row_def split_def)

lemma bumped_in_group:
  assumes "\<forall>c \<in> set candidates. bump_group c = g \<longrightarrow> l_overcap (fst c) = Some overcap"
  shows "length (filter (\<lambda>b. bump_group (bb_link b, bb_stop b) = g \<and> new_bumpstop_boarded b = 0)
                   (bumpstop_boards candidates)) =
         min (nat overcap) (length (filter (\<lambda>c. bump_group c = g) candidates))"
proof -
  define S where "S = sort_key bump_order candidates"
  define C where "C = cumcount [] (map bump_group S)"
  have len: "length C = length S"
    by (simp add: C_def cumcount_length)
  have uniform: "l_overcap (fst c) = Some overcap" if "c \<in> set S" "bump_group c = g" for c
    using assms that by (simp add: S_def)
  have "filter (\<lambda>b. bump_group (bb_link b, bb_stop b) = g \<and> new_bumpstop_boarded b = 0)
          (bumpstop_boards candidates) =
        map bumpstop_board_row
          (filter (\<lambda>(c, i). bump_group c = g \<and> int i < overcap) (zip S C))"
    unfolding bumpstop_boards_def Let_def S_def [symmetric] C_def [symmetric] filter_map
  proof (rule arg_cong [where f = "map bumpstop_board_row"], rule filter_cong [OF refl])
    fix row assume "row \<in> set (zip S C)"
    then have "(fst row, snd row) \<in> set (zip S C)"
      by simp
    then have "fst row \<in> set S"
      by (rule set_zip_leftD)
    then show "((\<lambda>b. bump_group (bb_link b, bb_stop b) = g \<and> new_bumpstop_boarded b = 0) \<circ>
                 bumpstop_board_row) row =
               (case row of (c, i) \<Rightarrow> bump_group c = g \<and> int i < overcap)"
      using uniform [of "fst row"]
      by (cases row) (auto simp add: bumpstop_board_row_def split: option.splits prod.splits)
  qed
  then have "length (filter (\<lambda>b. bump_group (bb_link b, bb_stop b) = g \<and> new_bumpstop_boarded b = 0)
          (bumpstop_boards candidates)) =
        length (filter (\<lambda>(c, i). bump_group c = g \<and> int i < overcap) (zip S C))"
    by simp
  also have "\<dots> = length (filter (\<lambda>(k, i). k = g \<and> int i < overcap) (zip (map bump_group S) C))"
    by (simp add: zip_map1 filter_map o_def split_def)
  also have "\<dots> = length (filter (\<lambda>i. int i < overcap)
                       (map snd (filter (\<lambda>(k, i). k = g) (zip (map bump_group S) C))))"
    by (simp add: filter_map o_def split_def conj_commute)
  also have "\<dots> = length (filter (\<lambda>i. int i < overcap) [0 ..< count_list (map bump_group S) g])"
    unfolding C_def cumcount_group by simp
  also have "\<dots> = min (nat overcap) (count_list (map bump_group S) g)"
    by (rule length_filter_below)
  also have "count_list (map bump_group S) g = length (filter (\<lambda>c. bump_group c = g) S)"
    by (simp add: count_list_length_filter filter_map o_def)
  also have "\<dots> = length (filter (\<lambda>c. bump_group c = g) candidates)"
    by (simp add: S_def filter_sort)
  finally show ?thesis .
qed

lemmas example_defs =
  example_veh_loaded_def example_link_a_def example_link_b_def example_candidates_def
  example_bump_stop_def example_veh_trips_def

lemma example_veh_loaded_eq:
  "put_passengers_on_vehicles example_get_chosen_links 1 0 [example_link_a, example_link_b]
     example_veh_trips = Inr example_veh_loaded"
  by code_simp

subsection \<open>Bump candidates and their overcap\<close>

lemma left_merge_member:
  assumes "(l, m) \<in> set (left_merge on left right)"
  shows "l \<in> set left \<and>
         (case m of None \<Rightarrow> \<forall>r \<in> set right. \<not> on l r | Some r \<Rightarrow> r \<in> set right \<and> on l r)"
  using assms
proof (induction left)
  case Nil
  then show ?case by (simp add: left_merge_Nil)
next
  case (Cons x left)
  from Cons.prems consider
      (head) "(l, m) \<in> set (case filter (on x) right of [] \<Rightarrow> [(x, None)] | ms \<Rightarrow> map (\<lambda>r. (x, Some r)) ms)"
    | (tail) "(l, m) \<in> set (left_merge on left right)"
    by (auto simp add: left_merge_Cons)
  then show ?case
  proof cases
    case head
    show ?thesis
    proof (cases "filter (on x) right")
      case Nil
      with head have "l = x" "m = None" by simp_all
      moreover from Nil have "\<forall>r \<in> set right. \<not> on x r"
        by (simp add: filter_empty_conv)
      ultimately show ?thesis by simp
    next
      case (Cons r rs)
      with head obtain r' where "l = x" "m = Some r'" "r' \<in> set (filter (on x) right)"
        by auto
      then show ?thesis by simp
    qed
  next
    case tail
    with Cons.IH show ?thesis by simp
  qed
qed

lemma matched_member:
  "(l, v) \<in> set (matched rows) \<longleftrightarrow> (l, Some v) \<in> set rows"
  by (induction rows) (auto simp add: matched_def split: option.splits)

text \<open>The overcap that \<open>find_passenger_vehicle_times\<close> joins to a link.\<close>

lemma find_passenger_vehicle_times_overcap:
  assumes "l \<in> set (find_passenger_vehicle_times pathset_links_df veh_trips_df)"
  shows "(l_overcap l = None \<and>
            (\<forall>v \<in> set veh_trips_df.
               \<not> (l_trip_id_num l = Some (v_trip_id_num v) \<and> l_A_id_num l = v_stop_id_num v \<and>
                  l_A_seq l = Some (v_stop_sequence v)))) \<or>
         (\<exists>v \<in> set veh_trips_df.
            l_trip_id_num l = Some (v_trip_id_num v) \<and> l_A_id_num l = v_stop_id_num v \<and>
            l_A_seq l = Some (v_stop_sequence v) \<and> l_overcap l = v_overcap v)"
proof -
  let ?A = "\<lambda>l v. l_trip_id_num l = Some (v_trip_id_num v) \<and> l_A_id_num l = v_stop_id_num v \<and>
                    l_A_seq l = Some (v_stop_sequence v)"
  let ?B = "\<lambda>l v. l_trip_id_num l = Some (v_trip_id_num v) \<and> l_B_id_num l = v_stop_id_num v \<and>
                    l_B_seq l = Some (v_stop_sequence v)"
  let ?boarded = "map (\<lambda>(l, v). l\<lparr>l_board_time := map_option v_departure_time v,
                                  l_overcap := Option.bind v v_overcap\<rparr>)
                    (left_merge ?A pathset_links_df veh_trips_df)"
  from assms obtain l1 m1 where m1: "(l1, m1) \<in> set (left_merge ?B ?boarded veh_trips_df)"
    and l: "l = l1\<lparr>l_alight_time := map_option v_arrival_time m1\<rparr>"
    by (auto simp add: find_passenger_vehicle_times_def Let_def)
  from left_merge_member [OF m1] have "l1 \<in> set ?boarded"
    by simp
  then obtain l0 m0 where m0: "(l0, m0) \<in> set (left_merge ?A pathset_links_df veh_trips_df)"
    and l1: "l1 = l0\<lparr>l_board_time := map_option v_departure_time m0, l_overcap := Option.bind m0 v_overcap\<rparr>"
    by auto
  from left_merge_member [OF m0]
  have partner: "case m0 of None \<Rightarrow> \<forall>r \<in> set veh_trips_df. \<not> ?A l0 r
                 | Some r \<Rightarrow> r \<in> set veh_trips_df \<and> ?A l0 r"
    by simp
  show ?thesis
  proof (cases m0)
    case None
    with partner show ?thesis
      by (simp add: l l1)
  next
    case (Some r)
    with partner have "r \<in> set veh_trips_df" "?A l0 r"
      by simp_all
    with Some show ?thesis
      by (auto simp add: l l1)
  qed
qed

lemma trips_in_sequence_unique:
  assumes "trips_in_sequence vs" and "v \<in> set vs" and "r \<in> set vs"
    and "v_trip_id_num r = v_trip_id_num v" and "v_stop_sequence r = v_stop_sequence v"
  shows "r = v"
proof -
  from trips_in_sequence_distinct [OF assms(1)]
  have "inj_on (\<lambda>v. (v_trip_id_num v, v_stop_sequence v)) (set vs)"
    by (simp add: distinct_map)
  with assms(2-) show ?thesis
    by (auto dest: inj_onD)
qed

lemma trips_in_sequence_set_overcap:
  "trips_in_sequence (map (set_overcap iteration simulation_iteration bump_iter) vs) = trips_in_sequence vs"
proof -
  have "map (\<lambda>v. (v_trip_id_num v, v_stop_sequence v))
          (map (set_overcap iteration simulation_iteration bump_iter) vs) =
        map (\<lambda>v. (v_trip_id_num v, v_stop_sequence v)) vs"
    by (simp add: set_overcap_def Let_def split: option.splits)
  then show ?thesis
    by (simp only: trips_in_sequence_keys)
qed

lemma first_per_trip_subset: "set (first_per_trip seen vs) \<subseteq> set vs"
  by (induction vs arbitrary: seen) auto

lemma bump_stops_subset: "set (bump_stops CAPACITY_CONSTRAINT BUMP_ONE_AT_A_TIME overcap_df) \<subseteq> set overcap_df"
proof -
  let ?stops = "sort_key v_trip_id (first_per_trip [] overcap_df)"
  have "set (take 1 (sort_key v_arrival_time ?stops)) \<subseteq> set ?stops"
    using set_take_subset [of 1 "sort_key v_arrival_time ?stops"] by simp
  moreover have "set ?stops \<subseteq> set overcap_df"
    using first_per_trip_subset [of "[]" overcap_df] by simp
  ultimately show ?thesis
    by (auto simp add: bump_stops_def Let_def)
qed

lemma bump_candidate_overcap:
  assumes seq: "trips_in_sequence veh_loaded_df"
    and cand: "(l, v) \<in> set (bump_candidates CAPACITY_CONSTRAINT BUMP_ONE_AT_A_TIME iteration
                  simulation_iteration bump_iter pathset_links_df veh_loaded_df)"
  shows "v \<in> set (bump_stops CAPACITY_CONSTRAINT BUMP_ONE_AT_A_TIME
                (filter (\<lambda>v. case v_overcap v of None \<Rightarrow> False | Some overcap \<Rightarrow> overcap > 0)
                   (map (set_overcap iteration simulation_iteration bump_iter) veh_loaded_df)))"
    and "l_overcap l = (if l_A_id_num l = v_stop_id_num v then v_overcap v else None)"
proof -
  define V where "V = map (set_overcap iteration simulation_iteration bump_iter) veh_loaded_df"
  define S where "S = bump_stops CAPACITY_CONSTRAINT BUMP_ONE_AT_A_TIME
      (filter (\<lambda>v. case v_overcap v of None \<Rightarrow> False | Some overcap \<Rightarrow> overcap > 0) V)"
  define L where "L = find_passenger_vehicle_times (mark_atcap V pathset_links_df) V"
  from cand have "(l, Some v) \<in> set (left_merge boards_at L S)"
    by (auto simp add: bump_candidates_def Let_def V_def S_def L_def matched_member)
  from left_merge_member [OF this] have l: "l \<in> set L" and v: "v \<in> set S" and at: "boards_at l v"
    by simp_all
  from v show "v \<in> set (bump_stops CAPACITY_CONSTRAINT BUMP_ONE_AT_A_TIME
                (filter (\<lambda>v. case v_overcap v of None \<Rightarrow> False | Some overcap \<Rightarrow> overcap > 0)
                   (map (set_overcap iteration simulation_iteration bump_iter) veh_loaded_df)))"
    by (simp add: S_def V_def)
  from v bump_stops_subset have vV: "v \<in> set V"
    unfolding S_def by fastforce
  have seqV: "trips_in_sequence V"
    unfolding V_def by (simp only: trips_in_sequence_set_overcap seq)
  from find_passenger_vehicle_times_overcap [OF l [unfolded L_def]]
  show "l_overcap l = (if l_A_id_num l = v_stop_id_num v then v_overcap v else None)"
  proof (elim disjE conjE bexE)
    assume none: "l_overcap l = None"
      and unmatched: "\<forall>r \<in> set V. \<not> (l_trip_id_num l = Some (v_trip_id_num r) \<and>
                 l_A_id_num l = v_stop_id_num r \<and> l_A_seq l = Some (v_stop_sequence r))"
    from unmatched vV at have "l_A_id_num l \<noteq> v_stop_id_num v"
      by (auto simp add: boards_at_def)
    with none show ?thesis by simp
  next
    fix r
    assume r: "r \<in> set V" and keys: "l_trip_id_num l = Some (v_trip_id_num r)"
        "l_A_id_num l = v_stop_id_num r" "l_A_seq l = Some (v_stop_sequence r)"
      and overcap: "l_overcap l = v_overcap r"
    from at keys have "v_trip_id_num r = v_trip_id_num v" "v_stop_sequence r = v_stop_sequence v"
      by (simp_all add: boards_at_def)
    from trips_in_sequence_unique [OF seqV vV r this] have "r = v" .
    with keys overcap show ?thesis by simp
  qed
qed

lemma flag_bump_overcap_passengers_bumped:
  assumes "filter (\<lambda>v. case v_overcap v of None \<Rightarrow> False | Some overcap \<Rightarrow> overcap > 0)
             (map (set_overcap iteration simulation_iteration bump_iter) veh_loaded_df) \<noteq> []"
  shows "chosen_paths_bumped (flag_bump_overcap_passengers True BUMP_ONE_AT_A_TIME bump_wait_df
            iteration simulation_iteration bump_iter pathset_links_df veh_loaded_df) =
         length (drop_duplicates (\<lambda>k. k) []
           (map (\<lambda>b. path_key (bb_link b))
              (filter (\<lambda>b. new_bumpstop_boarded b = 0)
                 (bumpstop_boards (bump_candidates True BUMP_ONE_AT_A_TIME iteration
                    simulation_iteration bump_iter pathset_links_df veh_loaded_df)))))"
    and "fb_bump_wait_df (flag_bump_overcap_passengers True BUMP_ONE_AT_A_TIME bump_wait_df
            iteration simulation_iteration bump_iter pathset_links_df veh_loaded_df) =
         merge_bump_wait bump_wait_df
           (new_bump_wait (bumpstop_boards (bump_candidates True BUMP_ONE_AT_A_TIME iteration
              simulation_iteration bump_iter pathset_links_df veh_loaded_df)))"
  using assms by (simp_all add: flag_bump_overcap_passengers_def bump_candidates_def Let_def)

text \<open>
  C1 (as amended): with the capacity constraint on and a vehicle table whose trips are in
  stop-sequence order, the rows of \<open>bumpstop_boards\<close> are the bump candidates in the order
  of realized A-time ascending, trip and stop sequence ascending, then pathfinding A-time
  and request number descending; every candidate is marked boarded (1) or bumped (0); the
  number of bumped chosen paths that the function returns counts the distinct paths of
  the candidates marked bumped; and at every selected bump stop the overcap is
  \<open>onboard - capacity\<close>, it is positive, and the number of candidates boarding there that
  are marked bumped is the smaller of that overcap and the number of candidates boarding
  there.
\<close>

theorem bump_order_and_bumped_count:
  assumes seq: "trips_in_sequence veh_loaded_df"
    and stop: "v \<in> set (bump_stops True BUMP_ONE_AT_A_TIME
                 (filter (\<lambda>v. case v_overcap v of None \<Rightarrow> False | Some overcap \<Rightarrow> overcap > 0)
                    (map (set_overcap iteration simulation_iteration bump_iter) veh_loaded_df)))"
    and cands: "candidates = bump_candidates True BUMP_ONE_AT_A_TIME iteration simulation_iteration
                  bump_iter pathset_links_df veh_loaded_df"
  shows "sorted (map bump_order (map (\<lambda>b. (bb_link b, bb_stop b)) (bumpstop_boards candidates))) \<and>
         mset (map (\<lambda>b. (bb_link b, bb_stop b)) (bumpstop_boards candidates)) = mset candidates \<and>
         (\<forall>b \<in> set (bumpstop_boards candidates). new_bumpstop_boarded b = 0 \<or> new_bumpstop_boarded b = 1) \<and>
         chosen_paths_bumped (flag_bump_overcap_passengers True BUMP_ONE_AT_A_TIME bump_wait_df
            iteration simulation_iteration bump_iter pathset_links_df veh_loaded_df) =
           length (drop_duplicates (\<lambda>k. k) []
             (map (\<lambda>b. path_key (bb_link b))
                (filter (\<lambda>b. new_bumpstop_boarded b = 0) (bumpstop_boards candidates)))) \<and>
         (\<exists>capacity. v_capacity v = Some capacity \<and>
            v_overcap v = Some (v_onboard v - capacity) \<and>
            0 < v_onboard v - capacity \<and>
            length (filter (\<lambda>b. bump_group (bb_link b, bb_stop b) =
                                   (v_trip_id_num v, v_stop_sequence v, v_stop_id_num v) \<and>
                                 new_bumpstop_boarded b = 0) (bumpstop_boards candidates)) =
              min (nat (v_onboard v - capacity))
                (length (filter (\<lambda>c. bump_group c =
                                   (v_trip_id_num v, v_stop_sequence v, v_stop_id_num v)) candidates)))"
proof -
  define V where "V = map (set_overcap iteration simulation_iteration bump_iter) veh_loaded_df"
  define Over where "Over = filter (\<lambda>v. case v_overcap v of None \<Rightarrow> False | Some overcap \<Rightarrow> overcap > 0) V"
  define g where "g = (v_trip_id_num v, v_stop_sequence v, v_stop_id_num v)"
  from stop bump_stops_subset have vO: "v \<in> set Over"
    unfolding Over_def V_def by fastforce
  then have vV: "v \<in> set V" and over: "case v_overcap v of None \<Rightarrow> False | Some overcap \<Rightarrow> overcap > 0"
    by (simp_all add: Over_def)
  from vV obtain v0 where v0: "v = set_overcap iteration simulation_iteration bump_iter v0"
    by (auto simp add: V_def)
  have fields: "v_overcap v = map_option (\<lambda>capacity. v_onboard v - capacity) (v_capacity v)"
    unfolding v0 by (simp add: set_overcap_def Let_def split: option.splits)
  with over obtain capacity where cap: "v_capacity v = Some capacity"
      "v_overcap v = Some (v_onboard v - capacity)" "0 < v_onboard v - capacity"
    by (cases "v_capacity v") auto
  have seqV: "trips_in_sequence V"
    unfolding V_def by (simp only: trips_in_sequence_set_overcap seq)
  have uniform: "\<forall>c \<in> set candidates. bump_group c = g \<longrightarrow> l_overcap (fst c) = Some (v_onboard v - capacity)"
  proof (intro ballI impI)
    fix c assume c: "c \<in> set candidates" and group: "bump_group c = g"
    obtain l v' where lv: "c = (l, v')" by (cases c)
    from c lv cands have member: "(l, v') \<in> set (bump_candidates True BUMP_ONE_AT_A_TIME iteration
        simulation_iteration bump_iter pathset_links_df veh_loaded_df)"
      by simp
    from bump_candidate_overcap(1) [OF seq member] bump_stops_subset have "v' \<in> set Over"
      unfolding Over_def V_def by fastforce
    then have v'V: "v' \<in> set V"
      by (simp add: Over_def)
    from group lv have keys: "v_trip_id_num v' = v_trip_id_num v" "v_stop_sequence v' = v_stop_sequence v"
        "l_A_id_num l = v_stop_id_num v"
      by (simp_all add: bump_group_def g_def)
    from trips_in_sequence_unique [OF seqV vV v'V keys(1,2)] have "v' = v" .
    with bump_candidate_overcap(2) [OF seq member] keys(3) cap(2) lv
    show "l_overcap (fst c) = Some (v_onboard v - capacity)"
      by simp
  qed
  have count: "length (filter (\<lambda>b. bump_group (bb_link b, bb_stop b) = g \<and> new_bumpstop_boarded b = 0)
        (bumpstop_boards candidates)) =
      min (nat (v_onboard v - capacity)) (length (filter (\<lambda>c. bump_group c = g) candidates))"
    by (rule bumped_in_group [OF uniform])
  have order: "sorted (map bump_order (map (\<lambda>b. (bb_link b, bb_stop b)) (bumpstop_boards candidates)))"
    by (simp only: bumpstop_boards_candidates sorted_sort_key)
  have perm: "mset (map (\<lambda>b. (bb_link b, bb_stop b)) (bumpstop_boards candidates)) = mset candidates"
    by (simp only: bumpstop_boards_candidates mset_sort)
  have marks: "\<forall>b \<in> set (bumpstop_boards candidates). new_bumpstop_boarded b = 0 \<or> new_bumpstop_boarded b = 1"
    by (auto simp add: bumpstop_boards_def Let_def bumpstop_board_row_def split: option.splits)
  from vO have "Over \<noteq> []"
    by auto
  then have bumped: "chosen_paths_bumped (flag_bump_overcap_passengers True BUMP_ONE_AT_A_TIME bump_wait_df
            iteration simulation_iteration bump_iter pathset_links_df veh_loaded_df) =
           length (drop_duplicates (\<lambda>k. k) []
             (map (\<lambda>b. path_key (bb_link b))
                (filter (\<lambda>b. new_bumpstop_boarded b = 0) (bumpstop_boards candidates))))"
    unfolding Over_def V_def cands by (rule flag_bump_overcap_passengers_bumped(1))
  from order perm marks bumped cap count show ?thesis
    unfolding g_def by blast
qed

lemma example_bump_stops_eq:
  "bump_stops True False
     (filter (\<lambda>v. case v_overcap v of None \<Rightarrow> False | Some overcap \<Rightarrow> overcap > 0)
        (map (set_overcap 1 0 0) example_veh_loaded)) = [example_bump_stop]"
  by code_simp

lemma example_bump_candidates_eq:
  "bump_candidates True False 1 0 0 [example_link_a, example_link_b] example_veh_loaded = example_candidates"
  by code_simp

theorem bump_order_and_bumped_count_witness:
  "trips_in_sequence example_veh_loaded \<and>
   bump_stops True False
     (filter (\<lambda>v. case v_overcap v of None \<Rightarrow> False | Some overcap \<Rightarrow> overcap > 0)
        (map (set_overcap 1 0 0) example_veh_loaded)) = [example_bump_stop] \<and>
   bump_candidates True False 1 0 0 [example_link_a, example_link_b] example_veh_loaded =
     example_candidates \<and>
   sorted (map bump_order (map (\<lambda>b. (bb_link b, bb_stop b)) (bumpstop_boards example_candidates))) \<and>
   v_onboard example_bump_stop = 2 \<and> v_capacity example_bump_stop = Some 1 \<and>
   length (filter (\<lambda>c. bump_group c = (1, 1, 10)) example_candidates) = 2 \<and>
   length (filter (\<lambda>b. bump_group (bb_link b, bb_stop b) = (1, 1, 10) \<and> new_bumpstop_boarded b = 0)
             (bumpstop_boards example_candidates)) = 1"
proof -
  have seq: "trips_in_sequence example_veh_loaded"
    by (simp add: trips_in_sequence_def example_veh_loaded_def)
  have stop: "example_bump_stop \<in> set (bump_stops True False
     (filter (\<lambda>v. case v_overcap v of None \<Rightarrow> False | Some overcap \<Rightarrow> overcap > 0)
        (map (set_overcap 1 0 0) example_veh_loaded)))"
    by (simp only: example_bump_stops_eq) simp
  have size: "length (filter (\<lambda>c. bump_group c = (1, 1, 10)) example_candidates) = 2"
    by (simp add: example_defs bump_group_def)
  have row: "v_onboard example_bump_stop = 2" "v_capacity example_bump_stop = Some 1"
      "v_trip_id_num example_bump_stop = 1" "v_stop_sequence example_bump_stop = 1"
      "v_stop_id_num example_bump_stop = 10"
    by (simp_all add: example_bump_stop_def)
  from bump_order_and_bumped_count [OF seq stop example_bump_candidates_eq [symmetric], of None]
  have "sorted (map bump_order (map (\<lambda>b. (bb_link b, bb_stop b)) (bumpstop_boards example_candidates)))"
    and "length (filter (\<lambda>b. bump_group (bb_link b, bb_stop b) = (1, 1, 10) \<and> new_bumpstop_boarded b = 0)
             (bumpstop_boards example_candidates)) = 1"
    by (simp_all add: row size)
  with seq example_bump_stops_eq example_bump_candidates_eq row(1,2) size show ?thesis
    by blast
qed

text \<open>
  C1 (as stated) fails on the second example. At stop 20 the vehicle has 3 boards, 4
  onboard and capacity 3, so the overcap is \<open>onboard - capacity = 1\<close>: the code marks one
  of the three candidates bumped and lets two board, and returns 1 bumped chosen path.
  The specification's wording keeps the first \<open>boards - capacity = 0\<close> candidates and
  bumps all three. The three candidates reach the stop at the same time.
\<close>

theorem boards_minus_capacity_kept_counterexample:
  "put_passengers_on_vehicles example_get_chosen_links 1 0 example_tied_links example_three_stops =
     Inr example_tied_veh_loaded \<and>
   bump_candidates True False 1 0 0 example_tied_links example_tied_veh_loaded =
     example_tied_candidates \<and>
   map l_new_A_time (map fst example_tied_candidates) = [Some 29100, Some 29100, Some 29100] \<and>
   v_boards example_tied_bump_stop = 3 \<and>
   v_onboard example_tied_bump_stop = 4 \<and>
   v_capacity example_tied_bump_stop = Some 3 \<and>
   map new_bumpstop_boarded (bumpstop_boards example_tied_candidates) = [0, 1, 1] \<and>
   map new_bumpstop_boarded (spec_bumpstop_boards example_tied_candidates) = [0, 0, 0] \<and>
   count_list (map new_bumpstop_boarded (bumpstop_boards example_tied_candidates)) 0 = 1 \<and>
   count_list (map new_bumpstop_boarded (spec_bumpstop_boards example_tied_candidates)) 0 = 3 \<and>
   chosen_paths_bumped (flag_bump_overcap_passengers True False None 1 0 0
      example_tied_links example_tied_veh_loaded) = 1"
  by code_simp

text \<open>
  Which candidates are bumped: on the first example passenger \<open>a\<close> reaches stop 10 at 07:55
  and passenger \<open>b\<close> at 07:58, and it is \<open>a\<close>, first in the order, who is bumped. The
  docstring of the source function says of this step "let the first ones that arrive at
  the stop get on".
\<close>

lemma earliest_arrival_is_bumped_example:
  "map l_person_id (map bb_link (bumpstop_boards example_candidates)) = [''a'', ''b''] \<and>
   map new_bumpstop_boarded (bumpstop_boards example_candidates) = [0, 1] \<and>
   map l_person_id (fb_pathset_links_df (flag_bump_overcap_passengers True False None 1 0 0
      [example_link_a, example_link_b] example_veh_loaded)) = [''a'', ''b''] \<and>
   map l_bump_iter (fb_pathset_links_df (flag_bump_overcap_passengers True False None 1 0 0
      [example_link_a, example_link_b] example_veh_loaded)) = [0, - 1] \<and>
   map l_bumpstop_boarded (fb_pathset_links_df (flag_bump_overcap_passengers True False None 1 0 0
      [example_link_a, example_link_b] example_veh_loaded)) = [Some 0, Some 1]"
  by code_simp

text \<open>
  The bump stop under \<open>BUMP_ONE_AT_A_TIME\<close> when two trips are over capacity at stops with
  the same arrival time: the trip with the smaller \<open>trip_id\<close>, whatever the order of the
  rows.
\<close>

lemma bump_stops_tied_arrival_example:
  "map v_trip_id example_two_trips_overcap = [''t2'', ''t1''] \<and>
   map v_trip_id (bump_stops True True example_two_trips_overcap) = [''t1''] \<and>
   map v_trip_id (bump_stops True False example_two_trips_overcap) = [''t1'', ''t2'']"
  by code_simp

subsection \<open>The bump-wait registry\<close>

lemma find_drop_duplicates:
  "k \<notin> set seen \<Longrightarrow>
   find (\<lambda>r. key r = k) (drop_duplicates key seen rows) = find (\<lambda>r. key r = k) rows"
proof (induction rows arbitrary: seen)
  case Nil
  show ?case by simp
next
  case (Cons r rows)
  show ?case
  proof (cases "key r \<in> set seen")
    case True
    with Cons.prems have "key r \<noteq> k" by auto
    with True Cons show ?thesis by simp
  next
    case False
    show ?thesis
    proof (cases "key r = k")
      case True
      with False show ?thesis by simp
    next
      case differs: False
      with Cons.prems have "k \<notin> set (key r # seen)" by auto
      from Cons.IH [OF this] False differs show ?thesis by simp
    qed
  qed
qed

text \<open>
  Once a trip and stop sequence has a row in the registry, a merge leaves that row as it
  is, whatever time the new pass recorded.
\<close>

lemma merge_bump_wait_keeps_recorded:
  assumes "find (\<lambda>r. (bw_trip_id_num r, bw_stop_sequence r) = k) old_rows = Some r"
  shows "\<exists>merged. merge_bump_wait (Some old_rows) new_rows = Some merged \<and>
           find (\<lambda>r. (bw_trip_id_num r, bw_stop_sequence r) = k) merged = Some r"
proof -
  have "find (\<lambda>r. (bw_trip_id_num r, bw_stop_sequence r) = k)
          (drop_duplicates (\<lambda>r. (bw_trip_id_num r, bw_stop_sequence r)) [] (old_rows @ new_rows)) =
        find (\<lambda>r. (bw_trip_id_num r, bw_stop_sequence r) = k) (old_rows @ new_rows)"
    by (rule find_drop_duplicates) simp
  also have "\<dots> = Some r"
    using assms by (induction old_rows) (auto split: if_splits)
  finally show ?thesis
    by (simp add: merge_bump_wait_def)
qed

text \<open>
  C2: the registry holds 07:58:00 for trip 1, stop sequence 1, stop 10. A later pass bumps
  at that stop and records 07:55:00 (the pathfinding A-time of the first candidate). The
  registry after the merge still holds 07:58:00, not the minimum 07:55:00.
\<close>

theorem bump_wait_merge_keeps_later_time:
  "new_bump_wait (bumpstop_boards example_candidates) =
     [\<lparr>bw_trip_id_num = 1, bw_stop_sequence = 1, bw_stop_id_num = 10, bw_pf_A_time = 28500\<rparr>] \<and>
   fb_bump_wait_df (flag_bump_overcap_passengers True False
       (Some [\<lparr>bw_trip_id_num = 1, bw_stop_sequence = 1, bw_stop_id_num = 10, bw_pf_A_time = 28680\<rparr>])
       2 0 0 [example_link_a, example_link_b] example_veh_loaded) =
     Some [\<lparr>bw_trip_id_num = 1, bw_stop_sequence = 1, bw_stop_id_num = 10, bw_pf_A_time = 28680\<rparr>] \<and>
   min (28680::int) 28500 = 28500"
  by code_simp

subsection \<open>Averaging across outer iterations\<close>

lemma sum_list_linear:
  "sum_list (map (\<lambda>v. a * x v + b * y v) xs) =
     a * sum_list (map x xs) + b * sum_list (map y xs)" for a b :: real
  by (induction xs) (simp_all add: algebra_simps)

lemma real_of_int_sum_list:
  "real_of_int (sum_list (map z xs)) = sum_list (map (\<lambda>v. real_of_int (z v)) xs)"
  by (induction xs) simp_all

lemma group_cumsum_linear:
  fixes a b :: real
  assumes "i < length xs"
  shows "group_cumsum (\<lambda>_. 0) (map (\<lambda>v. (key v, a * real_of_int (z v) + b * y v)) xs) ! i =
           a * real_of_int (group_cumsum (\<lambda>_. 0) (map (\<lambda>v. (key v, z v)) xs) ! i) +
           b * group_cumsum (\<lambda>_. 0) (map (\<lambda>v. (key v, y v)) xs) ! i"
  by (simp only: cumsum_as_prefix_sum [OF assms] sum_list_linear real_of_int_sum_list)

lemma msa_rows_result:
  assumes seq: "trips_in_sequence veh_trips_df" and it: "1 \<le> iteration"
    and rows_def: "rows = map (msa_row (1 / real_of_int iteration) \<circ>
                     load_row (get_chosen_links pathset_links_df)) veh_trips_df"
  shows "\<exists>R. put_passengers_on_vehicles get_chosen_links iteration 0 pathset_links_df veh_trips_df = Inr R \<and>
           length R = length veh_trips_df \<and>
           (\<forall>i < length veh_trips_df.
              R ! i = (rows ! i)
                \<lparr>v_onboard := group_cumsum (\<lambda>_. 0) (map (\<lambda>v. (v_trip_id_num v, v_boards v - v_alights v)) rows) ! i,
                 v_msa_onboard := group_cumsum (\<lambda>_. 0) (map (\<lambda>v. (v_trip_id_num v, v_msa_boards v - v_msa_alights v)) rows) ! i\<rparr>)"
proof -
  from it have nz: "iteration \<noteq> 0 \<or> (0::int) \<noteq> 0" by simp
  have rows_eq: "rows = (if (0::int) = 0
      then map (msa_row (1 / real_of_int iteration) \<circ> load_row (get_chosen_links pathset_links_df)) veh_trips_df
      else map (load_row (get_chosen_links pathset_links_df)) veh_trips_df)"
    by (simp add: rows_def)
  have len: "length rows = length veh_trips_df"
    by (simp add: rows_def)
  from put_passengers_on_vehicles_Inr [where get_chosen_links = get_chosen_links
      and pathset_links_df = pathset_links_df, OF seq nz rows_eq]
  show ?thesis
    by (simp add: len group_cumsum_length)
qed

text \<open>
  C4 (as amended): when \<open>put_passengers_on_vehicles\<close> runs with \<open>bump_iter = 0\<close> at outer
  iteration \<open>n \<ge> 1\<close>, the smoothed boards and alights of every row are
  \<open>(1/n) \<sqdot> raw + (1 - 1/n) \<sqdot> previous\<close>; the smoothed onboard is the cumulative sum per trip
  of smoothed boards minus smoothed alights, and it obeys the same rule whenever the
  previous smoothed onboard was such a cumulative sum; the smoothed overcap is left as it
  was. \<open>flag_bump_overcap_passengers\<close> writes the smoothed overcap only in the first pass
  (iteration 1, simulation iteration 0, bump iteration 0), as
  \<open>max 0 (msa_onboard - capacity)\<close>.
\<close>

theorem msa_smoothing_of_boards_alights_onboard:
  assumes seq: "trips_in_sequence veh_trips_df" and it: "1 \<le> iteration"
  shows "(\<exists>R. put_passengers_on_vehicles get_chosen_links iteration 0 pathset_links_df veh_trips_df = Inr R \<and>
            length R = length veh_trips_df \<and>
            msa_onboard_cumulative R \<and>
            (\<forall>i < length veh_trips_df.
               v_msa_boards (R ! i) =
                 spec_msa iteration (real_of_int (v_boards (R ! i))) (v_msa_boards (veh_trips_df ! i)) \<and>
               v_msa_alights (R ! i) =
                 spec_msa iteration (real_of_int (v_alights (R ! i))) (v_msa_alights (veh_trips_df ! i)) \<and>
               v_msa_overcap (R ! i) = v_msa_overcap (veh_trips_df ! i) \<and>
               (msa_onboard_cumulative veh_trips_df \<longrightarrow>
                  v_msa_onboard (R ! i) =
                    spec_msa iteration (real_of_int (v_onboard (R ! i))) (v_msa_onboard (veh_trips_df ! i))))) \<and>
         v_msa_overcap (set_overcap outer_iteration simulation_iteration bump_iter v) =
           (if outer_iteration = 1 \<and> simulation_iteration = 0 \<and> bump_iter = 0
            then (case v_capacity v of
                    None \<Rightarrow> v_msa_overcap v
                  | Some capacity \<Rightarrow> max 0 (v_msa_onboard v - real_of_int capacity))
            else v_msa_overcap v)"
proof (rule conjI)
  define lam where "lam = 1 / real_of_int iteration"
  define P where "P = get_chosen_links pathset_links_df"
  define rows where "rows = map (msa_row lam \<circ> load_row P) veh_trips_df"
  define C1 where "C1 = group_cumsum (\<lambda>_. 0) (map (\<lambda>v. (v_trip_id_num v, v_boards v - v_alights v)) rows)"
  define C2 where "C2 = group_cumsum (\<lambda>_. 0) (map (\<lambda>v. (v_trip_id_num v, v_msa_boards v - v_msa_alights v)) rows)"
  have rows_eq: "rows = map (msa_row (1 / real_of_int iteration) \<circ>
                     load_row (get_chosen_links pathset_links_df)) veh_trips_df"
    by (simp add: rows_def lam_def P_def)
  from msa_rows_result [where get_chosen_links = get_chosen_links
      and pathset_links_df = pathset_links_df, OF seq it rows_eq]
  obtain R where res: "put_passengers_on_vehicles get_chosen_links iteration 0 pathset_links_df veh_trips_df = Inr R"
    and len: "length R = length veh_trips_df"
    and nth_R: "\<And>i. i < length veh_trips_df \<Longrightarrow> R ! i = (rows ! i)\<lparr>v_onboard := C1 ! i, v_msa_onboard := C2 ! i\<rparr>"
    unfolding C1_def C2_def by blast
  have len_rows: "length rows = length veh_trips_df"
    by (simp add: rows_def)
  have nth_rows: "rows ! i = msa_row lam (load_row P (veh_trips_df ! i))" if "i < length veh_trips_df" for i
    using that by (simp add: rows_def)
  have int_part: "map (\<lambda>v. (v_trip_id_num v, v_boards v - v_alights v)) rows =
      map (\<lambda>v. (v_trip_id_num v, passenger_trips_boards P v - passenger_trips_alights P v)) veh_trips_df"
    by (simp add: rows_def msa_row_def load_row_def)
  have msa_part: "map (\<lambda>v. (v_trip_id_num v, v_msa_boards v - v_msa_alights v)) rows =
      map (\<lambda>v. (v_trip_id_num v,
                 lam * real_of_int (passenger_trips_boards P v - passenger_trips_alights P v) +
                 (1 - lam) * (v_msa_boards v - v_msa_alights v))) veh_trips_df"
    by (simp add: rows_def msa_row_def load_row_def algebra_simps)
  have C2_nth: "C2 ! i = lam * real_of_int (C1 ! i) +
      (1 - lam) * group_cumsum (\<lambda>_. 0)
                    (map (\<lambda>v. (v_trip_id_num v, v_msa_boards v - v_msa_alights v)) veh_trips_df) ! i"
    if "i < length veh_trips_df" for i
    unfolding C2_def C1_def msa_part int_part by (rule group_cumsum_linear [OF that])
  have cumulative: "msa_onboard_cumulative R"
  proof -
    have "map (\<lambda>v. (v_trip_id_num v, v_msa_boards v - v_msa_alights v)) R =
        map (\<lambda>v. (v_trip_id_num v, v_msa_boards v - v_msa_alights v)) rows"
      by (rule nth_equalityI) (simp_all add: len len_rows nth_R)
    moreover have "map v_msa_onboard R = C2"
      by (rule nth_equalityI) (simp_all add: len len_rows nth_R C2_def group_cumsum_length)
    ultimately show ?thesis
      by (simp add: msa_onboard_cumulative_def C2_def)
  qed
  have row: "v_msa_boards (R ! i) =
        spec_msa iteration (real_of_int (v_boards (R ! i))) (v_msa_boards (veh_trips_df ! i)) \<and>
      v_msa_alights (R ! i) =
        spec_msa iteration (real_of_int (v_alights (R ! i))) (v_msa_alights (veh_trips_df ! i)) \<and>
      v_msa_overcap (R ! i) = v_msa_overcap (veh_trips_df ! i) \<and>
      (msa_onboard_cumulative veh_trips_df \<longrightarrow>
         v_msa_onboard (R ! i) =
           spec_msa iteration (real_of_int (v_onboard (R ! i))) (v_msa_onboard (veh_trips_df ! i)))"
    if i: "i < length veh_trips_df" for i
  proof (intro conjI impI)
    show "v_msa_boards (R ! i) =
        spec_msa iteration (real_of_int (v_boards (R ! i))) (v_msa_boards (veh_trips_df ! i))"
      using i by (simp add: nth_R nth_rows msa_row_def load_row_def spec_msa_def lam_def)
    show "v_msa_alights (R ! i) =
        spec_msa iteration (real_of_int (v_alights (R ! i))) (v_msa_alights (veh_trips_df ! i))"
      using i by (simp add: nth_R nth_rows msa_row_def load_row_def spec_msa_def lam_def)
    show "v_msa_overcap (R ! i) = v_msa_overcap (veh_trips_df ! i)"
      using i by (simp add: nth_R nth_rows msa_row_def load_row_def)
  next
    assume "msa_onboard_cumulative veh_trips_df"
    then have "v_msa_onboard (veh_trips_df ! i) =
        group_cumsum (\<lambda>_. 0)
          (map (\<lambda>v. (v_trip_id_num v, v_msa_boards v - v_msa_alights v)) veh_trips_df) ! i"
      using i unfolding msa_onboard_cumulative_def by (metis nth_map)
    with C2_nth [OF i] show "v_msa_onboard (R ! i) =
        spec_msa iteration (real_of_int (v_onboard (R ! i))) (v_msa_onboard (veh_trips_df ! i))"
      using i by (simp add: nth_R spec_msa_def lam_def)
  qed
  from res len cumulative row
  show "\<exists>R. put_passengers_on_vehicles get_chosen_links iteration 0 pathset_links_df veh_trips_df = Inr R \<and>
            length R = length veh_trips_df \<and>
            msa_onboard_cumulative R \<and>
            (\<forall>i < length veh_trips_df.
               v_msa_boards (R ! i) =
                 spec_msa iteration (real_of_int (v_boards (R ! i))) (v_msa_boards (veh_trips_df ! i)) \<and>
               v_msa_alights (R ! i) =
                 spec_msa iteration (real_of_int (v_alights (R ! i))) (v_msa_alights (veh_trips_df ! i)) \<and>
               v_msa_overcap (R ! i) = v_msa_overcap (veh_trips_df ! i) \<and>
               (msa_onboard_cumulative veh_trips_df \<longrightarrow>
                  v_msa_onboard (R ! i) =
                    spec_msa iteration (real_of_int (v_onboard (R ! i))) (v_msa_onboard (veh_trips_df ! i))))"
    by blast
next
  show "v_msa_overcap (set_overcap outer_iteration simulation_iteration bump_iter v) =
           (if outer_iteration = 1 \<and> simulation_iteration = 0 \<and> bump_iter = 0
            then (case v_capacity v of
                    None \<Rightarrow> v_msa_overcap v
                  | Some capacity \<Rightarrow> max 0 (v_msa_onboard v - real_of_int capacity))
            else v_msa_overcap v)"
    by (simp add: set_overcap_def Let_def max_def split: option.splits)
qed

theorem msa_smoothing_of_boards_alights_onboard_witness:
  "trips_in_sequence example_veh_loaded \<and> (1::int) \<le> 2 \<and>
   msa_onboard_cumulative example_veh_loaded \<and>
   (\<exists>R. put_passengers_on_vehicles example_get_chosen_links 2 0 [example_link_a] example_veh_loaded = Inr R \<and>
      map v_boards R = [1, 0] \<and>
      map v_msa_boards example_veh_loaded = [2, 0] \<and>
      map v_msa_boards R = [3 / 2, 0] \<and>
      map v_msa_alights R = [0, 3 / 2] \<and>
      map v_msa_onboard R = [3 / 2, 0] \<and>
      v_msa_boards (R ! 0) =
        spec_msa 2 (real_of_int (v_boards (R ! 0))) (v_msa_boards (example_veh_loaded ! 0)) \<and>
      v_msa_onboard (R ! 0) =
        spec_msa 2 (real_of_int (v_onboard (R ! 0))) (v_msa_onboard (example_veh_loaded ! 0)))"
proof -
  have seq: "trips_in_sequence example_veh_loaded"
    by (simp add: trips_in_sequence_def example_veh_loaded_def)
  have it: "(1::int) \<le> 2"
    by simp
  have cumulative: "msa_onboard_cumulative example_veh_loaded"
    by (simp add: msa_onboard_cumulative_def example_veh_loaded_def)
  have pos: "0 < length example_veh_loaded"
    by (simp add: example_veh_loaded_def)
  from msa_smoothing_of_boards_alights_onboard [OF seq it, where get_chosen_links = example_get_chosen_links
      and pathset_links_df = "[example_link_a]"]
  obtain R where R: "put_passengers_on_vehicles example_get_chosen_links 2 0 [example_link_a]
        example_veh_loaded = Inr R"
    and rows: "\<forall>i < length example_veh_loaded.
               v_msa_boards (R ! i) =
                 spec_msa 2 (real_of_int (v_boards (R ! i))) (v_msa_boards (example_veh_loaded ! i)) \<and>
               v_msa_alights (R ! i) =
                 spec_msa 2 (real_of_int (v_alights (R ! i))) (v_msa_alights (example_veh_loaded ! i)) \<and>
               v_msa_overcap (R ! i) = v_msa_overcap (example_veh_loaded ! i) \<and>
               (msa_onboard_cumulative example_veh_loaded \<longrightarrow>
                  v_msa_onboard (R ! i) =
                    spec_msa 2 (real_of_int (v_onboard (R ! i))) (v_msa_onboard (example_veh_loaded ! i)))"
    by blast
  from rows pos cumulative have first:
    "v_msa_boards (R ! 0) =
        spec_msa 2 (real_of_int (v_boards (R ! 0))) (v_msa_boards (example_veh_loaded ! 0))"
    "v_msa_onboard (R ! 0) =
        spec_msa 2 (real_of_int (v_onboard (R ! 0))) (v_msa_onboard (example_veh_loaded ! 0))"
    by blast+
  have "\<exists>R'. put_passengers_on_vehicles example_get_chosen_links 2 0 [example_link_a]
        example_veh_loaded = Inr R' \<and>
      map v_boards R' = [1, 0] \<and> map v_msa_boards R' = [3 / 2, 0] \<and>
      map v_msa_alights R' = [0, 3 / 2] \<and> map v_msa_onboard R' = [3 / 2, 0]"
    by (simp add: put_passengers_on_vehicles_def example_get_chosen_links_def example_link_a_def
        example_veh_loaded_def load_row_def msa_boards_alights_def py_truediv_def
        msa_row_def left_merge_def trips_cumsum_def passenger_trips_boards_def
        passenger_trips_alights_def set_onboard_def fillna0_def)
  with R have vals: "map v_boards R = [1, 0]" "map v_msa_boards R = [3 / 2, 0]"
      "map v_msa_alights R = [0, 3 / 2]" "map v_msa_onboard R = [3 / 2, 0]"
    by simp_all
  have prev: "map v_msa_boards example_veh_loaded = [2, 0]"
    by (simp add: example_veh_loaded_def)
  show ?thesis
  proof (intro conjI exI [of _ R])
  qed (simp_all only: seq it cumulative R vals prev first)
qed

text \<open>
  C4 (as stated) fails for overcap. At outer iteration 2 the raw overcap of the example is
  1 at stop 10 and the previous smoothed overcap is 0, so the rule asks for \<open>1/2\<close>; the
  code leaves the smoothed overcap at 0. In the first pass of iteration 1 the raw overcap
  at stop 20 is \<open>-1\<close>, the rule asks for \<open>-1\<close>, and the code stores 0.
\<close>

theorem msa_overcap_counterexample:
  "map v_overcap (fb_veh_loaded_df (flag_bump_overcap_passengers True False None 2 0 0
      [example_link_a, example_link_b] example_veh_loaded)) = [Some 1, Some (- 1)] \<and>
   map v_msa_overcap example_veh_loaded = [0, 0] \<and>
   map v_msa_overcap (fb_veh_loaded_df (flag_bump_overcap_passengers True False None 2 0 0
      [example_link_a, example_link_b] example_veh_loaded)) = [0, 0] \<and>
   spec_msa 2 1 0 = 1 / 2 \<and>
   map v_msa_overcap (fb_veh_loaded_df (flag_bump_overcap_passengers True False None 1 0 0
      [example_link_a, example_link_b] example_veh_loaded)) = [1, 0] \<and>
   spec_msa 1 (- 1) 0 = - 1"
  by code_simp

subsection \<open>Missed transfers\<close>


lemma set_missed_xfer_flag:
  "l_missed_xfer (set_missed_xfer l) = 0 \<or> l_missed_xfer (set_missed_xfer l) = 1"
  by (simp add: set_missed_xfer_def split: option.splits)





end
